theory Spec2Isabelle
  imports Complex_Main "HOL-Library.AList" "HOL-Library.Multiset" "HOL-Library.Product_Lexorder"
begin

section \<open>Strings\<close>

text \<open>
  A JavaScript string is a sequence of UTF-16 code units. A code unit is modelled as a
  natural number (its value, below 65536) and a string as a list of them, so that
  \<open>length\<close> is the \<^verbatim>\<open>.length\<close> of the source. The functions below never depend on
  the bound. \<open>str\<close> turns an ASCII literal into such a string.
\<close>

type_synonym jchar = nat
type_synonym jstring = "nat list"

definition str :: "string \<Rightarrow> jstring" where
  "str s = map of_char s"

text \<open>
  White space as \<^verbatim>\<open>String.prototype.trim\<close> and the pattern \<^verbatim>\<open>\s\<close> see it: the
  ECMAScript WhiteSpace and LineTerminator code points.
\<close>

definition is_space :: "jchar \<Rightarrow> bool" where
  "is_space c \<longleftrightarrow>
     c = 9 \<or> c = 10 \<or> c = 11 \<or> c = 12 \<or> c = 13 \<or> c = 32 \<or> c = 160 \<or> c = 5760 \<or>
     (8192 \<le> c \<and> c \<le> 8202) \<or> c = 8232 \<or> c = 8233 \<or> c = 8239 \<or> c = 8287 \<or>
     c = 12288 \<or> c = 65279"

definition is_digit :: "jchar \<Rightarrow> bool" where
  "is_digit c \<longleftrightarrow> 48 \<le> c \<and> c \<le> 57"

definition is_lower_alnum :: "jchar \<Rightarrow> bool" where
  "is_lower_alnum c \<longleftrightarrow> (97 \<le> c \<and> c \<le> 122) \<or> (48 \<le> c \<and> c \<le> 57)"

definition is_key_char :: "jchar \<Rightarrow> bool" where
  "is_key_char c \<longleftrightarrow> is_lower_alnum c \<or> c = 95"

text \<open>
  \<^verbatim>\<open>toLowerCase\<close>. The Unicode case mapping is modelled exactly on every code unit
  whose lower-case form contains an ASCII character: the letters A to Z, the Kelvin sign
  U+212A (to \<open>k\<close>) and U+0130 (to \<open>i\<close> followed by U+0307). Every other code unit is kept
  as it is. This program only ever searches a lower-cased string for ASCII words, or
  deletes or replaces everything in it that is not an ASCII letter, digit or underscore,
  so the case of other characters is not observable in any result.
\<close>

definition lower_char :: "jchar \<Rightarrow> jstring" where
  "lower_char c =
     (if 65 \<le> c \<and> c \<le> 90 then [c + 32]
      else if c = 8490 then [107]
      else if c = 304 then [105, 775]
      else [c])"

definition toLowerCase :: "jstring \<Rightarrow> jstring" where
  "toLowerCase s = concat (map lower_char s)"

definition trim_end :: "jstring \<Rightarrow> jstring" where
  "trim_end s = rev (dropWhile is_space (rev s))"

definition trim :: "jstring \<Rightarrow> jstring" where
  "trim s = trim_end (dropWhile is_space s)"

text \<open>\<^verbatim>\<open>s.replace(/P+/g, r)\<close>: every maximal run of characters in the class becomes \<open>r\<close>.\<close>

function replace_runs :: "(jchar \<Rightarrow> bool) \<Rightarrow> jstring \<Rightarrow> jstring \<Rightarrow> jstring" where
  "replace_runs P r [] = []"
| "replace_runs P r (c # cs) =
     (if P c then r @ replace_runs P r (dropWhile P cs) else c # replace_runs P r cs)"
  by pat_completeness auto
termination
  by (relation "measure (\<lambda>(P, r, s). length s)")
     (auto simp: length_dropWhile_le less_Suc_eq_le)

text \<open>\<^verbatim>\<open>s.startsWith(w)\<close> and \<^verbatim>\<open>s.includes(w)\<close>.\<close>

definition startsWith :: "jstring \<Rightarrow> jstring \<Rightarrow> bool" where
  "startsWith s w \<longleftrightarrow> take (length w) s = w"

fun includes_str :: "jstring \<Rightarrow> jstring \<Rightarrow> bool" where
  "includes_str [] w \<longleftrightarrow> w = []"
| "includes_str (c # cs) w \<longleftrightarrow> startsWith (c # cs) w \<or> includes_str cs w"

text \<open>
  Splitting. \<open>cons_hd\<close> puts a character in front of the first piece. \<open>split_on\<close> is
  \<^verbatim>\<open>s.split(d)\<close> for a one-character separator, \<open>split_lines\<close> is
  \<^verbatim>\<open>s.split(/\r?\n/)\<close> and \<open>split_spaces\<close> is \<^verbatim>\<open>s.split(/\s{2,}/g)\<close>. Each
  returns one empty piece on the empty string, as the source does.
\<close>

definition cons_hd :: "jchar \<Rightarrow> jstring list \<Rightarrow> jstring list" where
  "cons_hd c ps = (case ps of [] \<Rightarrow> [[c]] | p # ps' \<Rightarrow> (c # p) # ps')"

fun split_on :: "jchar \<Rightarrow> jstring \<Rightarrow> jstring list" where
  "split_on d [] = [[]]"
| "split_on d (c # cs) = (if c = d then [] # split_on d cs else cons_hd c (split_on d cs))"

fun split_lines :: "jstring \<Rightarrow> jstring list" where
  "split_lines [] = [[]]"
| "split_lines [c] = (if c = 10 then [[], []] else [[c]])"
| "split_lines (c # d # cs) =
     (if c = 10 then [] # split_lines (d # cs)
      else if c = 13 \<and> d = 10 then [] # split_lines cs
      else cons_hd c (split_lines (d # cs)))"

function split_spaces :: "jstring \<Rightarrow> jstring list" where
  "split_spaces [] = [[]]"
| "split_spaces [c] = [[c]]"
| "split_spaces (c # d # cs) =
     (if is_space c \<and> is_space d then [] # split_spaces (dropWhile is_space cs)
      else cons_hd c (split_spaces (d # cs)))"
  by pat_completeness auto
termination
  by (relation "measure length") (auto simp: length_dropWhile_le less_Suc_eq_le le_SucI)

text \<open>\<^verbatim>\<open>cells.join(sep)\<close>.\<close>

fun join :: "jstring \<Rightarrow> jstring list \<Rightarrow> jstring" where
  "join sep [] = []"
| "join sep [x] = x"
| "join sep (x # y # ys) = x @ sep @ join sep (y # ys)"

section \<open>Values and numbers\<close>

text \<open>
  A number of the source is an IEEE 754 double. It is modelled by its value: a finite
  double is the rational number it denotes, and there are the two infinities. Negative
  zero is not told apart from zero, and NaN, which no number of a record can be, appears
  only as the \<open>None\<close> of a comparison. A field of a record holds a string, a number or
  null.
\<close>

datatype number = Fin rat | PosInf | NegInf

datatype jvalue = Str jstring | Num number | Null

text \<open>
  Two built-in conversions are not unfolded in this development and are parameters of
  it: \<^verbatim>\<open>ToNumber\<close> of a string (\<open>None\<close> is NaN), which the final sort applies to a
  rank that the metadata has written, and the text of a number that is not an integer
  of magnitude at most \<open>2^53\<close>. Every statement below holds whatever these two functions
  are.
\<close>

record builtins =
  stringToNumber :: "jstring \<Rightarrow> number option"
  numberToText :: "rat \<Rightarrow> jstring"

function nat_to_string :: "nat \<Rightarrow> jstring" where
  "nat_to_string n = (if n < 10 then [48 + n] else nat_to_string (n div 10) @ [48 + n mod 10])"
  by pat_completeness auto
termination
  by (relation "measure id") auto

declare nat_to_string.simps [simp del]

text \<open>
  The text of a number, as a template literal and \<^verbatim>\<open>String\<close> give it. An integer
  of magnitude at most \<open>2^53\<close> is written as its decimal numeral, with a minus sign
  when negative, and the infinities by name. For the other finite numbers (a fraction, or
  an integer above \<open>2^53\<close>, which the source writes with the shortest digits that read
  back as the same double, in exponent form from \<open>10^21\<close>) the text is the built-in's.
\<close>

definition number_to_string :: "builtins \<Rightarrow> number \<Rightarrow> jstring" where
  "number_to_string bi x =
     (case x of
        PosInf \<Rightarrow> str ''Infinity''
      | NegInf \<Rightarrow> str ''-Infinity''
      | Fin q \<Rightarrow>
          if of_int \<lfloor>q\<rfloor> = q \<and> \<bar>q\<bar> \<le> 2 ^ 53
          then (if q < 0 then 45 # nat_to_string (nat \<lfloor>- q\<rfloor>) else nat_to_string (nat \<lfloor>q\<rfloor>))
          else numberToText bi q)"

text \<open>
  Rounding to the nearest double, ties to the even significand. \<open>round_double a b\<close> is
  the double nearest to the fraction \<open>a / b\<close> (\<open>b\<close> positive): with \<open>e\<close> the binary
  exponent of the fraction, the unit in the last place is \<open>2^p\<close> for
  \<open>p = max (e - 52) (-1074)\<close> (the second bound is the one of the subnormal numbers), the
  fraction is rounded to a multiple of that unit, and a result of \<open>2^1024\<close> or more is
  infinite.
\<close>

function bit_length :: "nat \<Rightarrow> nat" where
  "bit_length n = (if n = 0 then 0 else Suc (bit_length (n div 2)))"
  by pat_completeness auto
termination
  by (relation "measure id") auto

declare bit_length.simps [simp del]

definition round_half_even :: "nat \<Rightarrow> nat \<Rightarrow> nat" where
  "round_half_even x y =
     (let f = x div y; r = x mod y
      in if 2 * r < y then f else if y < 2 * r then f + 1 else if even f then f else f + 1)"

definition binary_exponent :: "nat \<Rightarrow> nat \<Rightarrow> int" where
  "binary_exponent a b =
     (let d = int (bit_length a) - int (bit_length b)
      in if b * 2 ^ nat d \<le> a * 2 ^ nat (- d) then d else d - 1)"

definition double_limit :: nat where
  "double_limit = 2 ^ 1024"

definition round_scaled :: "nat \<Rightarrow> nat \<Rightarrow> int \<Rightarrow> number" where
  "round_scaled a b p =
     (let m = round_half_even (a * 2 ^ nat (- p)) (b * 2 ^ nat p)
      in if double_limit \<le> m * 2 ^ nat p then PosInf
         else Fin (of_nat (m * 2 ^ nat p) / 2 ^ nat (- p)))"

definition round_double :: "nat \<Rightarrow> nat \<Rightarrow> number" where
  "round_double a b =
     (if a = 0 then Fin 0
      else round_scaled a b (max (binary_exponent a b - 52) (- 1074)))"

definition negate :: "number \<Rightarrow> number" where
  "negate x = (case x of Fin q \<Rightarrow> Fin (- q) | PosInf \<Rightarrow> NegInf | NegInf \<Rightarrow> PosInf)"

text \<open>
  \<^verbatim>\<open>Number(t)\<close> on the texts that the two patterns of the coercions match: an optional
  minus sign, digits, and optionally a point and digits. The result is the double
  nearest to the decimal value of the text.
\<close>

definition digits_value :: "jstring \<Rightarrow> nat" where
  "digits_value ds = foldl (\<lambda>a d. 10 * a + (d - 48)) 0 ds"

definition Number :: "jstring \<Rightarrow> number" where
  "Number t =
     (let neg = startsWith t [45];
          u = (if neg then drop 1 t else t);
          ip = takeWhile is_digit u;
          fp = drop 1 (dropWhile is_digit u);
          x = round_double (digits_value ip * 10 ^ length fp + digits_value fp) (10 ^ length fp)
      in if neg then negate x else x)"

section \<open>The helpers of the parser\<close>

definition slugify :: "jstring \<Rightarrow> jstring" where
  "slugify s =
     (let s1 = trim (toLowerCase s);
          s2 = filter (\<lambda>c. c \<noteq> 39 \<and> c \<noteq> 34) s1;
          s3 = replace_runs (\<lambda>c. \<not> is_lower_alnum c) [45] s2
      in rev (dropWhile (\<lambda>c. c = 45) (rev (dropWhile (\<lambda>c. c = 45) s3))))"

definition normalizeKey :: "jstring \<Rightarrow> jstring" where
  "normalizeKey k =
     filter is_key_char (replace_runs is_space [95] (trim (toLowerCase k)))"

datatype format = Md | Tsv | Csv | Spaced

definition nonblank :: "jstring \<Rightarrow> bool" where
  "nonblank l \<longleftrightarrow> length (trim l) > 0"

definition detectFormat :: "jstring \<Rightarrow> format" where
  "detectFormat text =
     (let lines = filter nonblank (split_lines text)
      in if list_ex (\<lambda>l. 124 \<in> set l \<and> startsWith (trim l) [124]) lines then Md
         else if list_ex (\<lambda>l. 9 \<in> set l) lines then Tsv
         else if list_ex (\<lambda>l. 44 \<in> set l \<and> 9 \<notin> set l) lines then Csv
         else Spaced)"

text \<open>
  \<open>parseMarkdownTable\<close>. An exception of the source is a value of type \<open>error\<close>:
  reading a property of \<^verbatim>\<open>undefined\<close> is a \<open>TypeError\<close>, and each array read whose
  result is used that way (\<^verbatim>\<open>tableLines[0].split\<close> here) has that branch.
\<close>

datatype error = TypeError

definition table_cells :: "jstring \<Rightarrow> jstring list" where
  "table_cells l = filter (\<lambda>s. s \<noteq> []) (map trim (split_on 124 l))"

definition parseMarkdownTable ::
  "jstring list \<Rightarrow> error + (jstring list option \<times> jstring list list)" where
  "parseMarkdownTable lines =
     (let tableLines = filter (\<lambda>l. startsWith (trim l) [124]) lines
      in if length tableLines < 2 then Inr (None, [])
         else (case tableLines of
                 [] \<Rightarrow> Inl TypeError
               | t # _ \<Rightarrow> Inr (Some (table_cells t), map table_cells (drop 2 tableLines))))"

definition splitSpacedLine :: "jstring \<Rightarrow> jstring list" where
  "splitSpacedLine line = map trim (split_spaces (trim line))"

definition parseDelimited :: "jstring list \<Rightarrow> jchar \<Rightarrow> jstring list list" where
  "parseDelimited lines delim = map (\<lambda>line. map trim (split_on delim line)) lines"

definition headerWords :: "jstring list" where
  "headerWords =
     [str ''rank'', str ''player'', str ''name'', str ''city'', str ''school'',
      str ''type'', str ''rating'']"

definition guessHeader :: "jstring list \<Rightarrow> jstring option" where
  "guessHeader lines =
     find (\<lambda>line. length (filter (\<lambda>w. includes_str (toLowerCase line) w) headerWords) \<ge> 3)
       (take 25 lines)"

text \<open>
  The two patterns. \<open>match_rank\<close> is \<^verbatim>\<open>s.match(/#?(\d+)/)\<close> and gives the group
  \<^verbatim>\<open>m[1]\<close>; \<open>match_number\<close> is \<^verbatim>\<open>s.match(/-?\d+(\.\d+)?/)\<close> and gives
  \<^verbatim>\<open>m[0]\<close>. Both try the positions from the left, and \<^verbatim>\<open>\d\<close> is an ASCII digit.
\<close>

fun match_rank :: "jstring \<Rightarrow> jstring option" where
  "match_rank [] = None"
| "match_rank (c # cs) =
     (if c = 35 \<and> takeWhile is_digit cs \<noteq> [] then Some (takeWhile is_digit cs)
      else if is_digit c then Some (takeWhile is_digit (c # cs))
      else match_rank cs)"

definition number_token :: "jstring \<Rightarrow> jstring" where
  "number_token t =
     (let ip = takeWhile is_digit t
      in case dropWhile is_digit t of
           [] \<Rightarrow> ip
         | d # u \<Rightarrow> if d = 46 \<and> takeWhile is_digit u \<noteq> []
                     then ip @ [46] @ takeWhile is_digit u else ip)"

fun match_number :: "jstring \<Rightarrow> jstring option" where
  "match_number [] = None"
| "match_number (c # cs) =
     (if c = 45 \<and> takeWhile is_digit cs \<noteq> [] then Some (45 # number_token cs)
      else if is_digit c then Some (number_token (c # cs))
      else match_number cs)"

fun to_String :: "builtins \<Rightarrow> jvalue \<Rightarrow> jstring" where
  "to_String bi (Str s) = s"
| "to_String bi (Num x) = number_to_string bi x"
| "to_String bi Null = str ''null''"

definition coerceRank :: "builtins \<Rightarrow> jvalue \<Rightarrow> jvalue" where
  "coerceRank bi v =
     (if v = Null then Null
      else (case match_rank (trim (to_String bi v)) of
              Some g \<Rightarrow> Num (Number g)
            | None \<Rightarrow> Null))"

definition coerceNumber :: "builtins \<Rightarrow> jvalue \<Rightarrow> jvalue" where
  "coerceNumber bi v =
     (if v = Null then Null
      else (case match_number (trim (to_String bi v)) of
              Some t \<Rightarrow> Num (Number t)
            | None \<Rightarrow> Null))"

section \<open>Records\<close>

text \<open>
  A record is a plain object: its own properties in insertion order, as an association
  list with one entry per key. \<open>get\<close> reads a property (\<open>None\<close> is \<^verbatim>\<open>undefined\<close>);
  none of the keys read by name below is inherited from the prototype. \<open>set_prop\<close> is
  the assignment \<^verbatim>\<open>obj[k] = v\<close>: it replaces the value of an existing key in place and
  appends a new key, except that assigning a string or a number to \<^verbatim>\<open>__proto__\<close> is
  ignored by the prototype setter and creates no property. (The source enumerates
  integer-like keys first; nothing here depends on the order of the keys.)
\<close>

type_synonym obj = "(jstring \<times> jvalue) list"

definition get :: "obj \<Rightarrow> jstring \<Rightarrow> jvalue option" where
  "get ob k = map_of ob k"

definition set_prop :: "jstring \<Rightarrow> jvalue \<Rightarrow> obj \<Rightarrow> obj" where
  "set_prop k v ob = (if k = str ''__proto__'' then ob else AList.update k v ob)"

record options =
  columns :: "jstring list option"
  addId :: bool
  meta :: "(jstring \<times> jstring) list"

definition cell :: "jstring list \<Rightarrow> nat \<Rightarrow> jvalue" where
  "cell r i = (if i < length r then Str (r ! i) else Str [])"

definition assign_header :: "jstring list \<Rightarrow> jstring list \<Rightarrow> obj" where
  "assign_header h r =
     foldl (\<lambda>ob i. set_prop (normalizeKey (h ! i)) (cell r i) ob) [] [0..<length h]"

definition assign_fallback :: "jstring list \<Rightarrow> obj" where
  "assign_fallback r =
     foldl (\<lambda>ob i. set_prop (str ''col'' @ nat_to_string (i + 1)) (cell r i) ob) []
       [0..<length r]"

definition coerce_fields :: "builtins \<Rightarrow> obj \<Rightarrow> obj" where
  "coerce_fields bi ob =
     (let ob1 = (case get ob (str ''rank'') of
                   None \<Rightarrow> ob
                 | Some v \<Rightarrow> set_prop (str ''rank'') (coerceRank bi v) ob)
      in case get ob1 (str ''rating'') of
           None \<Rightarrow> ob1
         | Some v \<Rightarrow> set_prop (str ''rating'') (coerceNumber bi v) ob1)"

text \<open>
  \<^verbatim>\<open>a || b\<close> yields \<open>a\<close> when it is truthy; an absent property, null, the empty
  string and zero are not.
\<close>

fun truthy :: "jvalue option \<Rightarrow> bool" where
  "truthy None = False"
| "truthy (Some (Str s)) = (s \<noteq> [])"
| "truthy (Some (Num x)) = (x \<noteq> Fin 0)"
| "truthy (Some Null) = False"

definition id_base :: "builtins \<Rightarrow> obj \<Rightarrow> jstring" where
  "id_base bi ob =
     (case find truthy
             (map (get ob)
                [str ''player'', str ''name'', str ''full_name'', str ''col2'', str ''col1''])
      of Some (Some v) \<Rightarrow> to_String bi v
       | _ \<Rightarrow> str ''row'')"

definition rank_or_sequence :: "builtins \<Rightarrow> obj \<Rightarrow> nat \<Rightarrow> jstring" where
  "rank_or_sequence bi ob k =
     (case get ob (str ''rank'') of
        Some (Str s) \<Rightarrow> s
      | Some (Num x) \<Rightarrow> number_to_string bi x
      | _ \<Rightarrow> nat_to_string (k + 1))"

definition auto_id :: "builtins \<Rightarrow> nat \<Rightarrow> obj \<Rightarrow> obj" where
  "auto_id bi k ob =
     set_prop (str ''id'')
       (Str (slugify (id_base bi ob @ [45] @ rank_or_sequence bi ob k))) ob"

definition attach_meta :: "(jstring \<times> jstring) list \<Rightarrow> obj \<Rightarrow> obj" where
  "attach_meta m ob = foldl (\<lambda>ob' (k, v). set_prop k (Str v) ob') ob m"

text \<open>
  The body of the loop after the two junk tests, for a row \<open>r\<close> when \<open>k\<close> records
  exist: \<open>row_fields\<close> is the object after the key assignment and the coercions, to
  which the identifier and then the metadata are added.
\<close>

definition row_fields :: "builtins \<Rightarrow> jstring list option \<Rightarrow> jstring list \<Rightarrow> obj" where
  "row_fields bi finalHeader r =
     coerce_fields bi
       (case finalHeader of Some h \<Rightarrow> assign_header h r | None \<Rightarrow> assign_fallback r)"

definition make_record ::
  "builtins \<Rightarrow> options \<Rightarrow> jstring list option \<Rightarrow> nat \<Rightarrow> jstring list \<Rightarrow> obj" where
  "make_record bi opts finalHeader k r =
     (let ob1 = row_fields bi finalHeader r;
          ob2 = (if addId opts then auto_id bi k ob1 else ob1)
      in attach_meta (meta opts) ob2)"

section \<open>The conversion\<close>

text \<open>
  The two tests at the head of the loop. The second reads \<^verbatim>\<open>r[0].length\<close>, guarded
  by \<^verbatim>\<open>r.length === 1\<close>.
\<close>

definition is_separator_row :: "jstring list \<Rightarrow> bool" where
  "is_separator_row r \<longleftrightarrow> includes_str (toLowerCase (join [32] r)) (str ''---'')"

definition is_short_row :: "jstring list \<Rightarrow> error + bool" where
  "is_short_row r =
     (if length r = 1
      then (case r of [] \<Rightarrow> Inl TypeError | c # _ \<Rightarrow> Inr (length c < 2))
      else Inr False)"

fun build_results ::
  "builtins \<Rightarrow> options \<Rightarrow> jstring list option \<Rightarrow> jstring list list \<Rightarrow> obj list \<Rightarrow>
     error + obj list" where
  "build_results bi opts fh [] results = Inr results"
| "build_results bi opts fh (r # rows) results =
     (if is_separator_row r then build_results bi opts fh rows results
      else (case is_short_row r of
              Inl e \<Rightarrow> Inl e
            | Inr True \<Rightarrow> build_results bi opts fh rows results
            | Inr False \<Rightarrow>
                build_results bi opts fh rows
                  (results @ [make_record bi opts fh (length results) r])))"

text \<open>
  The final sort. \<^verbatim>\<open>Array.prototype.sort\<close> is stable, so with a consistent comparator
  its result is the one of a stable insertion: an element goes behind the elements it
  compares greater than, and a comparison that yields zero or NaN leaves two elements in
  their order. The comparator subtracts two operands \<^verbatim>\<open>rank ?? 999999\<close>, a string
  operand being converted by the built-in; \<open>None\<close> is NaN. Only the sign of the
  difference is used, and the difference of two finite doubles has the sign of the exact
  difference, which \<open>num_minus\<close> keeps.
\<close>

definition rank_operand :: "builtins \<Rightarrow> obj \<Rightarrow> number option" where
  "rank_operand bi ob =
     (case get ob (str ''rank'') of
        None \<Rightarrow> Some (Fin 999999)
      | Some Null \<Rightarrow> Some (Fin 999999)
      | Some (Num x) \<Rightarrow> Some x
      | Some (Str s) \<Rightarrow> stringToNumber bi s)"

fun num_minus :: "number \<Rightarrow> number \<Rightarrow> number option" where
  "num_minus (Fin a) (Fin b) = Some (Fin (a - b))"
| "num_minus (Fin a) PosInf = Some NegInf"
| "num_minus (Fin a) NegInf = Some PosInf"
| "num_minus PosInf PosInf = None"
| "num_minus PosInf y = Some PosInf"
| "num_minus NegInf NegInf = None"
| "num_minus NegInf y = Some NegInf"

definition compare_rank :: "builtins \<Rightarrow> obj \<Rightarrow> obj \<Rightarrow> number option" where
  "compare_rank bi a b =
     (case (rank_operand bi a, rank_operand bi b) of
        (Some x, Some y) \<Rightarrow> num_minus x y
      | _ \<Rightarrow> None)"

definition positive :: "number option \<Rightarrow> bool" where
  "positive v = (case v of Some (Fin d) \<Rightarrow> d > 0 | Some PosInf \<Rightarrow> True | _ \<Rightarrow> False)"

fun insert_by :: "('a \<Rightarrow> 'a \<Rightarrow> number option) \<Rightarrow> 'a \<Rightarrow> 'a list \<Rightarrow> 'a list" where
  "insert_by cmp x [] = [x]"
| "insert_by cmp x (y # ys) =
     (if positive (cmp x y) then y # insert_by cmp x ys else x # y # ys)"

definition array_sort :: "('a \<Rightarrow> 'a \<Rightarrow> number option) \<Rightarrow> 'a list \<Rightarrow> 'a list" where
  "array_sort cmp xs = foldr (insert_by cmp) xs []"

definition rank_nonnull :: "obj \<Rightarrow> bool" where
  "rank_nonnull ob = (case get ob (str ''rank'') of None \<Rightarrow> False | Some Null \<Rightarrow> False | Some _ \<Rightarrow> True)"

definition sortResults :: "builtins \<Rightarrow> obj list \<Rightarrow> error + obj list" where
  "sortResults bi results =
     (if length results \<noteq> 0
      then (case results of
              [] \<Rightarrow> Inl TypeError
            | r # _ \<Rightarrow> if rank_nonnull r then Inr (array_sort (compare_rank bi) results)
                       else Inr results)
      else Inr results)"

text \<open>\<^verbatim>\<open>xs.indexOf(x)\<close>, which is \<open>-1\<close> when \<open>x\<close> is absent, and \<^verbatim>\<open>xs.slice(i)\<close>.\<close>

fun indexOf :: "'a list \<Rightarrow> 'a \<Rightarrow> int" where
  "indexOf [] x = - 1"
| "indexOf (y # ys) x = (if y = x then 0 else (let i = indexOf ys x in if i < 0 then - 1 else i + 1))"

definition slice_from :: "int \<Rightarrow> 'a list \<Rightarrow> 'a list" where
  "slice_from i xs = (if i < 0 then drop (nat (int (length xs) + i)) xs else drop (nat i) xs)"

definition linesAll_of :: "jstring \<Rightarrow> jstring list" where
  "linesAll_of rawText =
     filter nonblank (map trim_end (split_lines (map (\<lambda>c. if c = 160 then 32 else c) rawText)))"

text \<open>The header and the rows of each format (the four branches of \<open>parseInput\<close>).\<close>

definition extract_rows ::
  "format \<Rightarrow> jstring list \<Rightarrow> error + (jstring list option \<times> jstring list list)" where
  "extract_rows fmt linesAll =
     (case fmt of
        Md \<Rightarrow> parseMarkdownTable linesAll
      | Tsv \<Rightarrow>
          (case guessHeader linesAll of
             Some headerLine \<Rightarrow>
               if headerLine \<noteq> [] then
                 Inr (Some (map trim (split_on 9 headerLine)),
                      parseDelimited (slice_from (indexOf linesAll headerLine + 1) linesAll) 9)
               else Inr (None, parseDelimited linesAll 9)
           | None \<Rightarrow> Inr (None, parseDelimited linesAll 9))
      | Csv \<Rightarrow>
          (case guessHeader linesAll of
             Some headerLine \<Rightarrow>
               if headerLine \<noteq> [] then
                 Inr (Some (map trim (split_on 44 headerLine)),
                      parseDelimited (slice_from (indexOf linesAll headerLine + 1) linesAll) 44)
               else Inr (None, parseDelimited linesAll 44)
           | None \<Rightarrow> Inr (None, parseDelimited linesAll 44))
      | Spaced \<Rightarrow>
          (case guessHeader linesAll of
             Some headerLine \<Rightarrow>
               if headerLine \<noteq> [] then
                 Inr (Some (splitSpacedLine headerLine),
                      map splitSpacedLine (slice_from (indexOf linesAll headerLine + 1) linesAll))
               else Inr (None, map splitSpacedLine linesAll)
           | None \<Rightarrow> Inr (None, map splitSpacedLine linesAll)))"

definition final_header :: "jstring list option \<Rightarrow> jstring list option \<Rightarrow> jstring list option" where
  "final_header cols header =
     (case cols of
        Some cs \<Rightarrow> if length cs > 0 then Some cs
                   else (case header of Some h \<Rightarrow> if length h > 0 then Some h else None
                                      | None \<Rightarrow> None)
      | None \<Rightarrow> (case header of Some h \<Rightarrow> if length h > 0 then Some h else None
                              | None \<Rightarrow> None))"

definition parseInput :: "builtins \<Rightarrow> jstring \<Rightarrow> options \<Rightarrow> error + obj list" where
  "parseInput bi rawText opts =
     (let linesAll = linesAll_of rawText;
          fmt = detectFormat rawText
      in case extract_rows fmt linesAll of
           Inl e \<Rightarrow> Inl e
         | Inr (header, rows) \<Rightarrow>
             (case build_results bi opts (final_header (columns opts) header) rows [] of
                Inl e \<Rightarrow> Inl e
              | Inr results \<Rightarrow> sortResults bi results))"

subsection \<open>The specification's wording, for comparison\<close>

text \<open>
  Slugification as the specification describes it: lower-case, strip the quote
  characters, collapse every run of characters that are not lower-case letters or digits
  to one hyphen, trim the hyphens at both ends. \<open>slugify_spec\<close> strips the straight
  quotes only, \<open>slugify_claim\<close> the curly ones (U+2018, U+2019, U+201C, U+201D) as well.
\<close>

definition strip_quotes :: "jstring \<Rightarrow> jstring" where
  "strip_quotes s = filter (\<lambda>c. c \<noteq> 39 \<and> c \<noteq> 34) s"

definition collapse_runs :: "jstring \<Rightarrow> jstring" where
  "collapse_runs s = replace_runs (\<lambda>c. \<not> is_lower_alnum c) [45] s"

definition trim_hyphens :: "jstring \<Rightarrow> jstring" where
  "trim_hyphens s = rev (dropWhile (\<lambda>c. c = 45) (rev (dropWhile (\<lambda>c. c = 45) s)))"

definition slugify_spec :: "jstring \<Rightarrow> jstring" where
  "slugify_spec s = trim_hyphens (collapse_runs (strip_quotes (toLowerCase s)))"

definition slugify_claim :: "jstring \<Rightarrow> jstring" where
  "slugify_claim s =
     trim_hyphens (collapse_runs
       (filter (\<lambda>c. c \<notin> {39, 34, 8216, 8217, 8220, 8221}) (toLowerCase s)))"

text \<open>
  Format detection as the claim words its third test: a comma in some non-blank line and
  no tab character anywhere in the input.
\<close>

definition detect_claim :: "jstring \<Rightarrow> format" where
  "detect_claim text =
     (let lines = filter nonblank (split_lines text)
      in if list_ex (\<lambda>l. 124 \<in> set l \<and> startsWith (trim l) [124]) lines then Md
         else if list_ex (\<lambda>l. 9 \<in> set l) lines then Tsv
         else if list_ex (\<lambda>l. 44 \<in> set l) lines \<and> 9 \<notin> set text then Csv
         else Spaced)"

text \<open>
  The first run of digits of a string, and its first numeric token: at the first digit,
  an optional minus sign just before it, the digits, and optionally a point and digits.
\<close>

definition first_digit_run :: "jstring \<Rightarrow> jstring" where
  "first_digit_run s = takeWhile is_digit (dropWhile (\<lambda>c. \<not> is_digit c) s)"

definition decimal_token :: "jstring \<Rightarrow> jstring" where
  "decimal_token t =
     (let ip = takeWhile is_digit t;
          after = dropWhile is_digit t;
          fp = takeWhile is_digit (drop 1 after)
      in if take 1 after = [46] \<and> fp \<noteq> [] then ip @ [46] @ fp else ip)"

definition first_number_token :: "jstring \<Rightarrow> jstring option" where
  "first_number_token s =
     (let pre = takeWhile (\<lambda>c. \<not> is_digit c) s;
          rest = dropWhile (\<lambda>c. \<not> is_digit c) s
      in if rest = [] then None
         else Some ((if pre \<noteq> [] \<and> last pre = 45 then [45] else []) @ decimal_token rest))"

text \<open>
  The junk test as the specification words it, and the parts of an identifier: the text
  of a string field (empty when the field is absent), the first non-empty one among the
  five candidate fields or \<^verbatim>\<open>row\<close>, the record of a row before the coercions, and
  the text of the rank when it is a number or else of the sequence number.
\<close>

definition discarded :: "jstring list \<Rightarrow> bool" where
  "discarded r \<longleftrightarrow>
     includes_str (toLowerCase (join [32] r)) (str ''---'') \<or>
     (case r of [c] \<Rightarrow> length c < 2 | _ \<Rightarrow> False)"

definition field_text :: "obj \<Rightarrow> jstring \<Rightarrow> jstring" where
  "field_text ob k = (case get ob k of Some (Str s) \<Rightarrow> s | _ \<Rightarrow> [])"

definition base_spec :: "obj \<Rightarrow> jstring" where
  "base_spec ob =
     (case filter (\<lambda>s. s \<noteq> [])
             (map (field_text ob)
                [str ''player'', str ''name'', str ''full_name'', str ''col2'', str ''col1''])
      of [] \<Rightarrow> str ''row'' | s # _ \<Rightarrow> s)"

definition assigned_fields :: "jstring list option \<Rightarrow> jstring list \<Rightarrow> obj" where
  "assigned_fields fh r = (case fh of Some h \<Rightarrow> assign_header h r | None \<Rightarrow> assign_fallback r)"

definition sequence_text :: "builtins \<Rightarrow> obj \<Rightarrow> nat \<Rightarrow> jstring" where
  "sequence_text bi ob k =
     (case get ob (str ''rank'') of
        Some (Num x) \<Rightarrow> number_to_string bi x
      | _ \<Rightarrow> nat_to_string (k + 1))"

text \<open>
  The key of the final sort: the rank, with 999999 for a record whose rank is null or
  absent, and also for a rank that is a string (one that the metadata has written: all
  the records then have the same rank, and any constant key describes the order). Keys
  are ordered as the numbers are, the infinities at the two ends, through pairs in
  lexicographic order. \<open>rank_numeric\<close> says that the rank of a record is not a
  string, which holds for every record produced when the metadata has no \<open>rank\<close> key.
  \<open>plain_builtins\<close> is an instance of the two built-ins for the worked examples, none of
  which reaches them.
\<close>

definition number_key :: "number \<Rightarrow> int \<times> rat" where
  "number_key x = (case x of Fin q \<Rightarrow> (0, q) | PosInf \<Rightarrow> (1, 0) | NegInf \<Rightarrow> (- 1, 0))"

definition rank_key :: "obj \<Rightarrow> int \<times> rat" where
  "rank_key ob = (case get ob (str ''rank'') of Some (Num x) \<Rightarrow> number_key x | _ \<Rightarrow> (0, 999999))"

definition rank_numeric :: "obj \<Rightarrow> bool" where
  "rank_numeric ob = (case get ob (str ''rank'') of Some (Str s) \<Rightarrow> False | _ \<Rightarrow> True)"

definition plain_builtins :: builtins where
  "plain_builtins = \<lparr>stringToNumber = (\<lambda>s. None), numberToText = (\<lambda>q. [])\<rparr>"

text \<open>
  A line as the conversion sees it: no-break spaces replaced by spaces and trailing white
  space removed.
\<close>

definition clean_line :: "jstring \<Rightarrow> jstring" where
  "clean_line l = trim_end (map (\<lambda>c. if c = 160 then 32 else c) l)"

section \<open>Properties\<close>

subsection \<open>Lists and characters\<close>

lemma dropWhile_none: "\<forall>x\<in>set s. \<not> P x \<Longrightarrow> dropWhile P s = s"
  by (cases s) auto

lemma replace_runs_none: "\<forall>x\<in>set s. \<not> P x \<Longrightarrow> replace_runs P r s = s"
  by (induction s) auto

lemma dropWhile_all: "\<forall>x\<in>set s. P x \<Longrightarrow> dropWhile P s = []"
  by (induction s) auto

lemma slugify_unfold: "slugify s = trim_hyphens (collapse_runs (strip_quotes (trim (toLowerCase s))))"
  by (simp add: slugify_def trim_hyphens_def collapse_runs_def strip_quotes_def)

lemma trim_hyphens_Cons: "trim_hyphens (45 # y) = trim_hyphens y"
  by (simp add: trim_hyphens_def)

lemma trim_hyphens_snoc: "trim_hyphens (y @ [45]) = trim_hyphens y"
proof (cases "\<forall>c\<in>set y. c = 45")
  case True
  then have e: "dropWhile (\<lambda>c. c = 45) y = []" by (rule dropWhile_all)
  show ?thesis by (simp add: trim_hyphens_def dropWhile_append2 True e)
next
  case False
  then show ?thesis by (auto simp: trim_hyphens_def dropWhile_append1)
qed

lemma collapse_dropWhile:
  "trim_hyphens (collapse_runs (dropWhile (\<lambda>c. \<not> is_lower_alnum c) x)) = trim_hyphens (collapse_runs x)"
  by (cases x) (auto simp: collapse_runs_def trim_hyphens_Cons)

lemma collapse_Cons:
  "\<not> is_lower_alnum c \<Longrightarrow> trim_hyphens (collapse_runs (c # x)) = trim_hyphens (collapse_runs x)"
  using collapse_dropWhile [of x] by (simp add: collapse_runs_def trim_hyphens_Cons)

lemma replace_runs_snoc:
  "P c \<Longrightarrow> replace_runs P r (x @ [c]) = replace_runs P r x \<or>
           replace_runs P r (x @ [c]) = replace_runs P r x @ r"
proof (induction P r x rule: replace_runs.induct)
  case (1 P r)
  then show ?case by simp
next
  case (2 P r d cs)
  show ?case
  proof (cases "P d")
    case True
    show ?thesis
    proof (cases "\<forall>x\<in>set cs. P x")
      case True
      then have e: "dropWhile P cs = []" by (rule dropWhile_all)
      show ?thesis by (simp add: dropWhile_append2 True \<open>P d\<close> 2(3) e)
    next
      case False
      then have "dropWhile P (cs @ [c]) = dropWhile P cs @ [c]"
        by (auto simp: dropWhile_append1)
      with 2(1) [OF True 2(3)] True show ?thesis by auto
    qed
  next
    case False
    with 2(2) [OF False 2(3)] show ?thesis by auto
  qed
qed

lemma collapse_snoc:
  "\<not> is_lower_alnum c \<Longrightarrow> trim_hyphens (collapse_runs (x @ [c])) = trim_hyphens (collapse_runs x)"
  using replace_runs_snoc [of "\<lambda>c. \<not> is_lower_alnum c" c "[45]" x]
  by (auto simp: collapse_runs_def trim_hyphens_snoc)

lemma space_not_alnum: "is_space c \<Longrightarrow> \<not> is_lower_alnum c"
  by (auto simp: is_space_def is_lower_alnum_def)

lemma space_not_quote: "is_space c \<Longrightarrow> c \<noteq> 39 \<and> c \<noteq> 34"
  by (auto simp: is_space_def)

lemma slug_leading:
  "trim_hyphens (collapse_runs (strip_quotes (dropWhile is_space u))) =
   trim_hyphens (collapse_runs (strip_quotes u))"
  by (induction u) (auto simp: strip_quotes_def collapse_Cons space_not_alnum space_not_quote)

lemma slug_trailing_chars:
  "\<forall>c\<in>set w. is_space c \<Longrightarrow>
   trim_hyphens (collapse_runs (strip_quotes (v @ w))) = trim_hyphens (collapse_runs (strip_quotes v))"
proof (induction w rule: rev_induct)
  case Nil
  then show ?case by simp
next
  case (snoc c w)
  have "strip_quotes (v @ w @ [c]) = strip_quotes (v @ w) @ [c]"
    using snoc.prems by (simp add: strip_quotes_def space_not_quote)
  then show ?case using snoc by (simp add: collapse_snoc space_not_alnum)
qed

lemma slug_trailing:
  "trim_hyphens (collapse_runs (strip_quotes (trim_end v))) = trim_hyphens (collapse_runs (strip_quotes v))"
proof -
  have "v = trim_end v @ rev (takeWhile is_space (rev v))"
    by (metis trim_end_def rev_append rev_rev_ident takeWhile_dropWhile_id)
  moreover have "\<forall>c\<in>set (rev (takeWhile is_space (rev v))). is_space c"
    by (auto dest: set_takeWhileD)
  ultimately show ?thesis using slug_trailing_chars by metis
qed

lemma startsWith_iff: "startsWith s w \<longleftrightarrow> (\<exists>q. s = w @ q)"
proof
  assume "startsWith s w"
  then have "s = w @ drop (length w) s"
    by (metis startsWith_def append_take_drop_id)
  then show "\<exists>q. s = w @ q" ..
next
  assume "\<exists>q. s = w @ q"
  then show "startsWith s w" by (auto simp: startsWith_def)
qed

lemma includes_str_iff: "includes_str z w \<longleftrightarrow> (\<exists>p q. z = p @ w @ q)"
proof (induction z)
  case Nil
  then show ?case by auto
next
  case (Cons c cs)
  show ?case
  proof
    assume "includes_str (c # cs) w"
    then consider "startsWith (c # cs) w" | "includes_str cs w" by auto
    then show "\<exists>p q. c # cs = p @ w @ q"
    proof cases
      case 1
      then obtain q where "c # cs = w @ q" using startsWith_iff by blast
      then have "c # cs = [] @ w @ q" by simp
      then show ?thesis by blast
    next
      case 2
      then obtain p q where "cs = p @ w @ q" using Cons by blast
      then have "c # cs = (c # p) @ w @ q" by simp
      then show ?thesis by blast
    qed
  next
    assume "\<exists>p q. c # cs = p @ w @ q"
    then obtain p q where e: "c # cs = p @ w @ q" by blast
    show "includes_str (c # cs) w"
    proof (cases p)
      case Nil
      with e have "startsWith (c # cs) w" using startsWith_iff [of "c # cs" w] by auto
      then show ?thesis by simp
    next
      case (Cons a p')
      with e have "cs = p' @ w @ q" by simp
      then have "includes_str cs w" using Cons.IH by blast
      then show ?thesis by simp
    qed
  qed
qed

lemma includes_str_suffix: "\<not> includes_str (a @ b) w \<Longrightarrow> \<not> includes_str b w"
  unfolding includes_str_iff by (metis append.assoc)

lemma includes_str_prefix: "\<not> includes_str (a @ b) w \<Longrightarrow> \<not> includes_str a w"
  unfolding includes_str_iff by (metis append.assoc)

lemma replace_runs_head:
  "\<not> P d \<Longrightarrow> replace_runs P r (d # x) = d # replace_runs P r x"
  by simp

lemma collapse_no_double: "\<not> includes_str (collapse_runs s) [45, 45]"
  unfolding collapse_runs_def
proof (induction "\<lambda>c. \<not> is_lower_alnum c" "[45::nat]" s rule: replace_runs.induct)
  case 1
  then show ?case by simp
next
  case (2 c cs)
  show ?case
  proof (cases "is_lower_alnum c")
    case True
    then have "c \<noteq> 45" by (auto simp: is_lower_alnum_def)
    with True 2 show ?thesis by (simp add: startsWith_def)
  next
    case False
    let ?x = "dropWhile (\<lambda>c. \<not> is_lower_alnum c) cs"
    have "\<not> startsWith (replace_runs (\<lambda>c. \<not> is_lower_alnum c) [45] ?x) [45]"
    proof (cases ?x)
      case Nil
      show ?thesis unfolding Nil by (simp add: startsWith_def)
    next
      case (Cons d x')
      then have "is_lower_alnum d" using hd_dropWhile [of "\<lambda>c. \<not> is_lower_alnum c" cs] by auto
      then have "d \<noteq> 45" by (auto simp: is_lower_alnum_def)
      with \<open>is_lower_alnum d\<close> show ?thesis unfolding Cons by (simp add: startsWith_def)
    qed
    then have "\<not> startsWith (45 # replace_runs (\<lambda>c. \<not> is_lower_alnum c) [45] ?x) [45, 45]"
      by (cases "replace_runs (\<lambda>c. \<not> is_lower_alnum c) [45] ?x") (auto simp: startsWith_def)
    with False 2 show ?thesis by simp
  qed
qed

lemma collapse_chars: "list_all (\<lambda>c. is_lower_alnum c \<or> c = 45) (collapse_runs s)"
  unfolding collapse_runs_def
  by (induction "\<lambda>c. \<not> is_lower_alnum c" "[45::nat]" s rule: replace_runs.induct) auto

lemma trim_hyphens_decomp: "\<exists>a b. z = a @ trim_hyphens z @ b"
proof -
  let ?y = "dropWhile (\<lambda>c. c = 45) z"
  have "z = takeWhile (\<lambda>c. c = 45) z @ ?y" by simp
  moreover have "?y = trim_hyphens z @ rev (takeWhile (\<lambda>c. c = 45) (rev ?y))"
    unfolding trim_hyphens_def by (metis rev_append rev_rev_ident takeWhile_dropWhile_id)
  ultimately show ?thesis by metis
qed

lemma trim_hyphens_no_double:
  "\<not> includes_str z w \<Longrightarrow> \<not> includes_str (trim_hyphens z) w"
  using trim_hyphens_decomp [of z] by (metis includes_str_prefix includes_str_suffix)

lemma trim_hyphens_chars: "list_all P z \<Longrightarrow> list_all P (trim_hyphens z)"
  using trim_hyphens_decomp [of z] by (metis list_all_append)

lemma dropWhile_not_starts: "\<not> startsWith (dropWhile (\<lambda>c. c = 45) x) [45]"
proof (cases "dropWhile (\<lambda>c. c = 45) x")
  case Nil
  then show ?thesis unfolding Nil by (simp add: startsWith_def)
next
  case (Cons d x')
  then have "d \<noteq> 45" using hd_dropWhile [of "\<lambda>c. c = 45" x] by auto
  then show ?thesis unfolding Cons by (simp add: startsWith_def)
qed

lemma trim_hyphens_end: "\<not> startsWith (rev (trim_hyphens z)) [45]"
  unfolding trim_hyphens_def by (simp add: dropWhile_not_starts)

lemma trim_hyphens_start: "\<not> startsWith (trim_hyphens z) [45]"
proof
  assume a: "startsWith (trim_hyphens z) [45]"
  let ?y = "dropWhile (\<lambda>c. c = 45) z"
  have "?y = trim_hyphens z @ rev (takeWhile (\<lambda>c. c = 45) (rev ?y))"
    unfolding trim_hyphens_def by (metis rev_append rev_rev_ident takeWhile_dropWhile_id)
  with a have "startsWith ?y [45]" unfolding startsWith_iff by (metis append.assoc)
  with dropWhile_not_starts [of z] show False by simp
qed

subsection \<open>Slugification\<close>

text \<open>
  C3 (as amended). For every string, \<open>slugify\<close> lower-cases it, strips the straight quote
  characters, collapses every run of characters that are not lower-case letters or digits
  to a single hyphen and trims the hyphens at both ends (the \<^verbatim>\<open>trim\<close> of the source
  changes nothing in the result). So a slug consists of lower-case letters, digits and
  hyphens, neither begins nor ends with a hyphen and has no two hyphens in a row;
  \<^verbatim>\<open>O'Brien\<close> gives \<^verbatim>\<open>obrien\<close> and \<^verbatim>\<open>  New   York!!\<close> gives
  \<^verbatim>\<open>new-york\<close>. Curly quotes are not stripped.
\<close>

theorem slugify_steps:
  "slugify s = slugify_spec s \<and>
   list_all (\<lambda>c. is_lower_alnum c \<or> c = 45) (slugify s) \<and>
   \<not> startsWith (slugify s) [45] \<and>
   \<not> startsWith (rev (slugify s)) [45] \<and>
   \<not> includes_str (slugify s) [45, 45] \<and>
   slugify (str ''O'Brien'') = str ''obrien'' \<and>
   slugify (str ''  New   York!!'') = str ''new-york''"
proof -
  have e: "slugify s = slugify_spec s"
    by (simp add: slugify_unfold slugify_spec_def trim_def slug_trailing slug_leading)
  have "list_all (\<lambda>c. is_lower_alnum c \<or> c = 45) (slugify_spec s)"
    unfolding slugify_spec_def by (rule trim_hyphens_chars) (rule collapse_chars)
  moreover have "\<not> startsWith (slugify_spec s) [45]"
    unfolding slugify_spec_def by (rule trim_hyphens_start)
  moreover have "\<not> startsWith (rev (slugify_spec s)) [45]"
    unfolding slugify_spec_def by (rule trim_hyphens_end)
  moreover have "\<not> includes_str (slugify_spec s) [45, 45]"
    unfolding slugify_spec_def by (rule trim_hyphens_no_double) (rule collapse_no_double)
  moreover have "slugify (str ''O'Brien'') = str ''obrien''"
    by (simp add: slugify_def str_def toLowerCase_def lower_char_def trim_def trim_end_def
        is_space_def is_lower_alnum_def)
  moreover have "slugify (str ''  New   York!!'') = str ''new-york''"
    by (simp add: slugify_def str_def toLowerCase_def lower_char_def trim_def trim_end_def
        is_space_def is_lower_alnum_def)
  ultimately show ?thesis unfolding e by blast
qed

text \<open>
  C3 as stated fails: the right single quotation mark U+2019 in \<^verbatim>\<open>O\<close>U+2019\<^verbatim>\<open>Brien\<close> is
  not stripped by the source but replaced by a hyphen, where stripping the curly quotes
  would give \<^verbatim>\<open>obrien\<close>.
\<close>

theorem slugify_curly_counterexample:
  "slugify [79, 8217, 66, 114, 105, 101, 110] = str ''o-brien'' \<and>
   slugify_claim [79, 8217, 66, 114, 105, 101, 110] = str ''obrien''"
  by (simp add: slugify_def slugify_claim_def trim_hyphens_def collapse_runs_def str_def
      toLowerCase_def lower_char_def trim_def trim_end_def is_space_def is_lower_alnum_def)

subsection \<open>Key normalization\<close>

lemma key_char_not_space: "is_key_char c \<Longrightarrow> \<not> is_space c"
  by (auto simp: is_key_char_def is_lower_alnum_def is_space_def)

lemma key_char_lower: "is_key_char c \<Longrightarrow> lower_char c = [c]"
  by (auto simp: is_key_char_def is_lower_alnum_def lower_char_def)

lemma toLowerCase_key: "\<forall>c\<in>set s. is_key_char c \<Longrightarrow> toLowerCase s = s"
  by (induction s) (auto simp: toLowerCase_def key_char_lower)

lemma trim_none: "\<forall>x\<in>set s. \<not> is_space x \<Longrightarrow> trim s = s"
  by (simp add: trim_def trim_end_def dropWhile_none)

lemma normalizeKey_fixed: "\<forall>c\<in>set s. is_key_char c \<Longrightarrow> normalizeKey s = s"
  by (simp add: normalizeKey_def toLowerCase_key trim_none replace_runs_none key_char_not_space)

lemma normalizeKey_chars: "\<forall>c\<in>set (normalizeKey k). is_key_char c"
  by (simp add: normalizeKey_def)

text \<open>
  C8. Key normalization is idempotent: normalizing a normalized key returns it unchanged.
\<close>

theorem normalizeKey_idempotent: "normalizeKey (normalizeKey k) = normalizeKey k"
  by (rule normalizeKey_fixed) (rule normalizeKey_chars)

subsection \<open>Format detection\<close>

text \<open>
  C5 (as amended). \<open>detectFormat\<close> returns one tag, decided by a fixed chain of tests over
  the non-blank lines: markdown if some line contains a bar and begins with one once
  trimmed; else tab-separated if some line contains a tab; else comma-separated if some
  line contains a comma; else whitespace-aligned. When the third test is reached no
  non-blank line contains a tab, and a tab in a blank line is not looked at.
\<close>

theorem detectFormat_chain:
  "(detectFormat text = Md \<longleftrightarrow>
      (\<exists>l \<in> set (filter nonblank (split_lines text)). 124 \<in> set l \<and> startsWith (trim l) [124])) \<and>
   (detectFormat text = Tsv \<longleftrightarrow>
      \<not> (\<exists>l \<in> set (filter nonblank (split_lines text)). 124 \<in> set l \<and> startsWith (trim l) [124]) \<and>
      (\<exists>l \<in> set (filter nonblank (split_lines text)). 9 \<in> set l)) \<and>
   (detectFormat text = Csv \<longleftrightarrow>
      \<not> (\<exists>l \<in> set (filter nonblank (split_lines text)). 124 \<in> set l \<and> startsWith (trim l) [124]) \<and>
      \<not> (\<exists>l \<in> set (filter nonblank (split_lines text)). 9 \<in> set l) \<and>
      (\<exists>l \<in> set (filter nonblank (split_lines text)). 44 \<in> set l)) \<and>
   (detectFormat text = Spaced \<longleftrightarrow>
      \<not> (\<exists>l \<in> set (filter nonblank (split_lines text)). 124 \<in> set l \<and> startsWith (trim l) [124]) \<and>
      \<not> (\<exists>l \<in> set (filter nonblank (split_lines text)). 9 \<in> set l) \<and>
      \<not> (\<exists>l \<in> set (filter nonblank (split_lines text)). 44 \<in> set l))"
  unfolding detectFormat_def Let_def list_ex_iff by auto

text \<open>
  C5 as stated fails: in the input \<^verbatim>\<open>a,b\<close>, newline, tab, a tab is present, in a
  blank line; the source ignores that line and answers comma-separated, where a check for
  a tab anywhere in the input answers whitespace-aligned.
\<close>

theorem detectFormat_blank_tab_counterexample:
  "detectFormat (str ''a,b'' @ [10, 9]) = Csv \<and> detect_claim (str ''a,b'' @ [10, 9]) = Spaced"
  by (simp add: detectFormat_def detect_claim_def str_def nonblank_def trim_def trim_end_def
      is_space_def startsWith_def cons_hd_def)

subsection \<open>Coercions\<close>

lemma number_token_decimal: "number_token t = decimal_token t"
proof (cases "dropWhile is_digit t")
  case Nil
  show ?thesis unfolding number_token_def decimal_token_def Let_def Nil by simp
next
  case (Cons d u)
  show ?thesis unfolding number_token_def decimal_token_def Let_def Cons by simp
qed

lemma first_digit_run_digit:
  "takeWhile is_digit s \<noteq> [] \<Longrightarrow> first_digit_run s = takeWhile is_digit s"
  by (cases s) (auto simp: first_digit_run_def split: if_splits)

lemma first_digit_run_Cons: "\<not> is_digit c \<Longrightarrow> first_digit_run (c # s) = first_digit_run s"
  by (simp add: first_digit_run_def)

lemma match_rank_first: "match_rank s = (if first_digit_run s = [] then None else Some (first_digit_run s))"
proof (induction s)
  case Nil
  then show ?case by (simp add: first_digit_run_def)
next
  case (Cons c cs)
  show ?case
  proof (cases "is_digit c")
    case True
    then have "c \<noteq> 35" by (auto simp: is_digit_def)
    with True show ?thesis using first_digit_run_digit [of "c # cs"] by simp
  next
    case False
    with Cons show ?thesis
      using first_digit_run_digit [of cs] by (auto simp: first_digit_run_Cons)
  qed
qed

lemma match_number_first: "match_number s = first_number_token s"
proof (induction s)
  case Nil
  then show ?case by (simp add: first_number_token_def)
next
  case (Cons c cs)
  show ?case
  proof (cases "c = 45 \<and> takeWhile is_digit cs \<noteq> []")
    case True
    then obtain d ds where cs: "cs = d # ds" and d: "is_digit d"
      by (cases cs) (auto split: if_splits)
    with True show ?thesis
      by (simp add: first_number_token_def number_token_decimal is_digit_def)
  next
    case False
    show ?thesis
    proof (cases "is_digit c")
      case True
      with False show ?thesis
        by (auto simp: first_number_token_def number_token_decimal)
    next
      case nd: False
      show ?thesis
      proof (cases "takeWhile (\<lambda>c. \<not> is_digit c) cs = []")
        case True
        then have "cs = [] \<or> takeWhile is_digit cs \<noteq> []"
          by (cases cs) (auto split: if_splits)
        with False nd True Cons show ?thesis
          by (auto simp: first_number_token_def Let_def)
      next
        case ne: False
        with False nd Cons show ?thesis
          by (auto simp: first_number_token_def Let_def)
      qed
    qed
  qed
qed


lemma space_not_digit: "is_space c \<Longrightarrow> \<not> is_digit c"
  by (auto simp: is_space_def is_digit_def)

lemma space_not_mark: "is_space c \<Longrightarrow> c \<noteq> 45 \<and> c \<noteq> 46 \<and> c \<noteq> 35"
  by (auto simp: is_space_def)

lemma takeWhile_digit_spaces:
  "\<forall>c\<in>set w. is_space c \<Longrightarrow> takeWhile is_digit (x @ w) = takeWhile is_digit x"
proof (induction x)
  case Nil
  then show ?case by (cases w) (auto simp: space_not_digit)
next
  case (Cons a x)
  then show ?case by simp
qed

lemma dropWhile_digit_spaces:
  "\<forall>c\<in>set w. is_space c \<Longrightarrow> dropWhile is_digit (x @ w) = dropWhile is_digit x @ w"
proof (induction x)
  case Nil
  then show ?case by (cases w) (auto simp: space_not_digit)
next
  case (Cons a x)
  then show ?case by simp
qed

lemma match_rank_spaces: "\<forall>c\<in>set w. is_space c \<Longrightarrow> match_rank w = None"
  by (induction w) (auto simp: space_not_digit space_not_mark)

lemma match_rank_leading: "match_rank (dropWhile is_space s) = match_rank s"
  by (induction s) (auto simp: space_not_digit space_not_mark)

lemma match_rank_trailing: "\<forall>c\<in>set w. is_space c \<Longrightarrow> match_rank (v @ w) = match_rank v"
proof (induction v)
  case Nil
  then show ?case by (simp add: match_rank_spaces)
next
  case (Cons a v)
  then show ?case
    using takeWhile_digit_spaces [of w v] takeWhile_digit_spaces [of w "a # v"] by simp
qed

lemma number_token_spaces:
  "\<forall>c\<in>set w. is_space c \<Longrightarrow> number_token (x @ w) = number_token x"
proof (cases "dropWhile is_digit x")
  case Nil
  assume w: "\<forall>c\<in>set w. is_space c"
  show ?thesis
    unfolding number_token_def Let_def dropWhile_digit_spaces [OF w] takeWhile_digit_spaces [OF w] Nil
    using w by (cases w) (auto simp: space_not_mark)
next
  case (Cons d u)
  assume w: "\<forall>c\<in>set w. is_space c"
  show ?thesis
    unfolding number_token_def Let_def dropWhile_digit_spaces [OF w] takeWhile_digit_spaces [OF w] Cons
    using takeWhile_digit_spaces [OF w, of u] by simp
qed

lemma match_number_spaces: "\<forall>c\<in>set w. is_space c \<Longrightarrow> match_number w = None"
  by (induction w) (auto simp: space_not_digit space_not_mark)

lemma match_number_leading: "match_number (dropWhile is_space s) = match_number s"
  by (induction s) (auto simp: space_not_digit space_not_mark)

lemma match_number_trailing: "\<forall>c\<in>set w. is_space c \<Longrightarrow> match_number (v @ w) = match_number v"
proof (induction v)
  case Nil
  then show ?case by (simp add: match_number_spaces)
next
  case (Cons a v)
  then show ?case
    using takeWhile_digit_spaces [of w v] number_token_spaces [of w v]
      number_token_spaces [of w "a # v"] by simp
qed

lemma trim_end_decomp: "\<exists>w. (\<forall>c\<in>set w. is_space c) \<and> v = trim_end v @ w"
proof -
  have "v = trim_end v @ rev (takeWhile is_space (rev v))"
    by (metis trim_end_def rev_append rev_rev_ident takeWhile_dropWhile_id)
  moreover have "\<forall>c\<in>set (rev (takeWhile is_space (rev v))). is_space c"
    by (auto dest: set_takeWhileD)
  ultimately show ?thesis by blast
qed

lemma match_rank_trim: "match_rank (trim s) = match_rank s"
proof -
  obtain w where w: "\<forall>c\<in>set w. is_space c" and e: "dropWhile is_space s = trim s @ w"
    using trim_end_decomp [of "dropWhile is_space s"] by (auto simp: trim_def)
  have "match_rank (trim s) = match_rank (trim s @ w)" by (simp add: match_rank_trailing [OF w])
  also have "\<dots> = match_rank s" using e match_rank_leading [of s] by simp
  finally show ?thesis .
qed

lemma match_number_trim: "match_number (trim s) = match_number s"
proof -
  obtain w where w: "\<forall>c\<in>set w. is_space c" and e: "dropWhile is_space s = trim s @ w"
    using trim_end_decomp [of "dropWhile is_space s"] by (auto simp: trim_def)
  have "match_number (trim s) = match_number (trim s @ w)"
    by (simp add: match_number_trailing [OF w])
  also have "\<dots> = match_number s" using e match_number_leading [of s] by simp
  finally show ?thesis .
qed

lemma bit_length_bound: "n < 2 ^ k \<Longrightarrow> bit_length n \<le> k"
proof (induction k arbitrary: n)
  case 0
  then show ?case by (subst bit_length.simps) simp
next
  case (Suc k)
  show ?case
  proof (cases "n = 0")
    case True
    then show ?thesis by (subst bit_length.simps) simp
  next
    case False
    from Suc.prems have "n div 2 < 2 ^ k" by simp
    then have "bit_length (n div 2) \<le> k" by (rule Suc.IH)
    with False show ?thesis by (subst bit_length.simps) simp
  qed
qed

lemma bit_length_pos: "0 < n \<Longrightarrow> 0 < bit_length n"
  by (subst bit_length.simps) simp

lemma bit_length_one: "bit_length (Suc 0) = Suc 0"
  by (simp add: bit_length.simps)

lemma round_half_even_one: "round_half_even x (Suc 0) = x"
  by (simp add: round_half_even_def)

lemma binary_exponent_small:
  assumes "0 < n" and "n < 2 ^ 53"
  shows "- 1 \<le> binary_exponent n (Suc 0) \<and> binary_exponent n (Suc 0) \<le> 52"
proof -
  have "bit_length n \<le> 53" using assms(2) by (rule bit_length_bound)
  moreover have "0 < bit_length n" using assms(1) by (rule bit_length_pos)
  ultimately show ?thesis
    by (simp add: binary_exponent_def Let_def bit_length_one)
qed

lemma round_scaled_small:
  assumes "n < 2 ^ 53" and "- 53 \<le> p" and "p \<le> 0"
  shows "round_scaled n (Suc 0) p = Fin (of_nat n)"
proof -
  define k where "k = nat (- p)"
  have np: "nat p = 0" using assms(3) by simp
  have k53: "k \<le> 53" using assms(2) by (simp add: k_def)
  have kk: "(2::nat) ^ k \<le> 2 ^ 53" using k53 by (intro power_increasing) simp_all
  have "n * 2 ^ k < 2 ^ 53 * 2 ^ 53"
    using assms(1) kk by (intro mult_less_le_imp_less) simp_all
  also have "\<dots> \<le> double_limit"
    by (simp add: double_limit_def flip: power_add)
  finally have small: "\<not> double_limit \<le> n * 2 ^ k" by simp
  have q: "(of_nat (n * 2 ^ k) :: rat) / 2 ^ k = of_nat n" by simp
  show ?thesis
    using small q by (simp add: round_scaled_def Let_def round_half_even_one np flip: k_def)
qed

lemma round_double_small:
  assumes "n < 2 ^ 53"
  shows "round_double n (Suc 0) = Fin (of_nat n)"
proof (cases "n = 0")
  case True
  then show ?thesis by (simp add: round_double_def)
next
  case False
  then have "0 < n" by simp
  from binary_exponent_small [OF this assms]
  have "- 53 \<le> max (binary_exponent n (Suc 0) - 52) (- 1074)"
    and "max (binary_exponent n (Suc 0) - 52) (- 1074) \<le> 0"
    by simp_all
  from round_scaled_small [OF assms this] False show ?thesis
    by (simp add: round_double_def)
qed

lemma Number_digits:
  assumes "g \<noteq> []" and "\<forall>c\<in>set g. is_digit c" and "digits_value g < 2 ^ 53"
  shows "Number g = Fin (of_nat (digits_value g))"
proof -
  obtain c g' where g: "g = c # g'" using assms(1) by (cases g) auto
  with assms(2) have "c \<noteq> 45" by (auto simp: is_digit_def)
  then have a: "startsWith g [45] = False" by (simp add: startsWith_def g)
  have b: "takeWhile is_digit g = g" using assms(2) by simp
  have c: "dropWhile is_digit g = []" using assms(2) by (rule dropWhile_all)
  have d: "digits_value [] = 0" by (simp add: digits_value_def)
  show ?thesis
    by (simp add: Number_def Let_def a b c d round_double_small [OF assms(3)])
qed

lemmas rd_eval = round_double_def round_scaled_def binary_exponent_def round_half_even_def
  double_limit_def Let_def bit_length.simps

lemma first_digit_run_digits: "\<forall>c\<in>set (first_digit_run s). is_digit c"
  by (auto simp: first_digit_run_def dest: set_takeWhileD)

lemma coerceRank_Str:
  "coerceRank bi (Str s) =
     (if first_digit_run s = [] then Null else Num (Number (first_digit_run s)))"
proof -
  have "coerceRank bi (Str s) = (case match_rank s of Some g \<Rightarrow> Num (Number g) | None \<Rightarrow> Null)"
    by (simp add: coerceRank_def match_rank_trim)
  then show ?thesis
    by (simp add: match_rank_first)
qed

lemma coerceNumber_Str:
  "coerceNumber bi (Str s) = (case first_number_token s of None \<Rightarrow> Null | Some t \<Rightarrow> Num (Number t))"
proof -
  have "coerceNumber bi (Str s) = (case match_number s of Some t \<Rightarrow> Num (Number t) | None \<Rightarrow> Null)"
    by (simp add: coerceNumber_def match_number_trim)
  then show ?thesis
    by (simp add: match_number_first split: option.splits)
qed

lemma proto_neq [simp]:
  "str ''rank'' \<noteq> str ''__proto__''" "str ''rating'' \<noteq> str ''__proto__''"
  "str ''id'' \<noteq> str ''__proto__''" "str ''rank'' \<noteq> str ''rating''" "str ''rating'' \<noteq> str ''rank''"
  "str ''id'' \<noteq> str ''rank''" "str ''rank'' \<noteq> str ''id''"
  "str ''id'' \<noteq> str ''rating''" "str ''rating'' \<noteq> str ''id''"
  by (simp_all add: str_def)

lemma get_set_prop:
  "k \<noteq> str ''__proto__'' \<Longrightarrow> get (set_prop k v ob) k' = (if k' = k then Some v else get ob k')"
  by (simp add: get_def set_prop_def update_conv')

lemma get_set_prop_proto:
  "get (set_prop k v ob) (str ''__proto__'') = get ob (str ''__proto__'')"
  by (simp add: get_def set_prop_def update_conv')

lemma get_coerce_rank:
  "get (coerce_fields bi ob) (str ''rank'') = map_option (coerceRank bi) (get ob (str ''rank''))"
  by (auto simp: coerce_fields_def Let_def get_set_prop split: option.splits)

lemma get_coerce_rating:
  "get (coerce_fields bi ob) (str ''rating'') = map_option (coerceNumber bi) (get ob (str ''rating''))"
  by (auto simp: coerce_fields_def Let_def get_set_prop split: option.splits)

lemma Number_examples:
  "Number (str ''12'') = Fin 12" "Number (str ''8.5'') = Fin (17 / 2)"
  "Number (str ''-3'') = Fin (- 3)"
  "Number (str ''9007199254740993'') = Fin 9007199254740992"
  "Number (str ''3'') = Fin 3" "Number (str ''1'') = Fin 1" "Number (str ''2'') = Fin 2"
  "Number (str ''1000000'') = Fin 1000000"
  by (simp_all add: Number_def negate_def str_def startsWith_def is_digit_def digits_value_def
      rd_eval)

subsection \<open>The loop over the rows\<close>

lemma is_short_row_eq: "is_short_row r = Inr (case r of [c] \<Rightarrow> length c < 2 | _ \<Rightarrow> False)"
  by (cases r) (auto simp: is_short_row_def split: list.splits)

lemma build_results_eq:
  "build_results bi opts fh rows acc =
     Inr (acc @ map (\<lambda>(i, r). make_record bi opts fh i r)
                  (enumerate (length acc) (filter (\<lambda>r. \<not> discarded r) rows)))"
proof (induction rows arbitrary: acc)
  case Nil
  then show ?case by simp
next
  case (Cons r rows)
  show ?case
  proof (cases "discarded r")
    case True
    then show ?thesis
      by (auto simp: Cons discarded_def is_separator_row_def is_short_row_eq)
  next
    case False
    then show ?thesis
      by (auto simp: Cons discarded_def is_separator_row_def is_short_row_eq)
  qed
qed

text \<open>
  C7. A row is discarded exactly when its cells, joined with one space and lower-cased,
  contain \<^verbatim>\<open>---\<close>, or it has exactly one cell and that cell is shorter than two
  characters. The loop yields the records of the rows that are kept, and the count passed
  to the record of a kept row is the number of records before it: a discarded row takes
  no position in the numbering used by the fallback identifiers.
\<close>

theorem junk_rows_take_no_index:
  "(discarded r \<longleftrightarrow> is_separator_row r \<or> is_short_row r = Inr True) \<and>
   build_results bi opts fh rows acc =
     Inr (acc @ map (\<lambda>(i, r). make_record bi opts fh i r)
                  (enumerate (length acc) (filter (\<lambda>r. \<not> discarded r) rows)))"
  by (simp add: build_results_eq) (simp add: discarded_def is_separator_row_def is_short_row_eq)

subsection \<open>Records\<close>

lemma get_set_prop_other: "k' \<noteq> k \<Longrightarrow> get (set_prop k v ob) k' = get ob k'"
  by (simp add: get_def set_prop_def update_conv')

lemma get_set_prop_cases: "get (set_prop k v ob) k' = Some x \<Longrightarrow> x = v \<or> get ob k' = Some x"
  by (auto simp: get_def set_prop_def update_conv' split: if_splits)

lemma attach_meta_Cons:
  "attach_meta ((k, v) # m) ob = attach_meta m (set_prop k (Str v) ob)"
  by (simp add: attach_meta_def)

lemma attach_meta_miss: "k \<notin> fst ` set m \<Longrightarrow> get (attach_meta m ob) k = get ob k"
proof (induction m arbitrary: ob)
  case Nil
  then show ?case by (simp add: attach_meta_def)
next
  case (Cons p m)
  obtain k' v' where p: "p = (k', v')" by (cases p)
  have "attach_meta (p # m) ob = attach_meta m (set_prop k' (Str v') ob)"
    by (simp add: attach_meta_def p)
  with Cons p show ?case by (simp add: get_set_prop_other)
qed

lemma attach_meta_hit:
  "distinct (map fst m) \<Longrightarrow> (k, v) \<in> set m \<Longrightarrow> k \<noteq> str ''__proto__'' \<Longrightarrow>
   get (attach_meta m ob) k = Some (Str v)"
proof (induction m arbitrary: ob)
  case Nil
  then show ?case by simp
next
  case (Cons p m)
  obtain k' v' where p: "p = (k', v')" by (cases p)
  have step: "attach_meta (p # m) ob = attach_meta m (set_prop k' (Str v') ob)"
    by (simp add: attach_meta_def p)
  show ?case
  proof (cases "(k, v) = p")
    case True
    with Cons.prems p have "k \<notin> fst ` set m" by auto
    then have "get (attach_meta (p # m) ob) k = get (set_prop k' (Str v') ob) k"
      unfolding step by (rule attach_meta_miss)
    with True p Cons.prems(3) show ?thesis by (simp add: get_set_prop)
  next
    case False
    with Cons show ?thesis by (simp add: step)
  qed
qed

lemma attach_meta_proto:
  "get (attach_meta m ob) (str ''__proto__'') = get ob (str ''__proto__'')"
proof (induction m arbitrary: ob)
  case Nil
  then show ?case by (simp add: attach_meta_def)
next
  case (Cons p m)
  obtain k' v' where p: "p = (k', v')" by (cases p)
  show ?case unfolding p attach_meta_Cons Cons.IH by (rule get_set_prop_proto)
qed

text \<open>
  When the metadata has the key \<open>rank\<close>, every record gets the same string as its rank:
  the value of the last entry with that key.
\<close>

lemma attach_meta_rank_const:
  "k \<in> fst ` set m \<Longrightarrow> k \<noteq> str ''__proto__'' \<Longrightarrow>
   \<exists>v. \<forall>ob. get (attach_meta m ob) k = Some (Str v)"
proof (induction m rule: rev_induct)
  case Nil
  then show ?case by simp
next
  case (snoc p m)
  obtain k' v' where p: "p = (k', v')" by (cases p)
  have step: "\<And>ob. attach_meta (m @ [p]) ob = set_prop k' (Str v') (attach_meta m ob)"
    by (simp add: attach_meta_def p)
  show ?case
  proof (cases "k' = k")
    case True
    with snoc.prems(2) have "\<forall>ob. get (attach_meta (m @ [p]) ob) k = Some (Str v')"
      by (simp add: step get_set_prop)
    then show ?thesis ..
  next
    case False
    with snoc.prems p have "k \<in> fst ` set m" by auto
    from snoc.IH [OF this snoc.prems(2)] obtain v where
      "\<forall>ob. get (attach_meta m ob) k = Some (Str v)" ..
    with False have "\<forall>ob. get (attach_meta (m @ [p]) ob) k = Some (Str v)"
      by (simp add: step get_set_prop_other)
    then show ?thesis ..
  qed
qed

lemma set_insert_by: "set (insert_by cmp x ys) = insert x (set ys)"
  by (induction ys) auto

lemma set_array_sort: "set (array_sort cmp xs) = set xs"
  by (induction xs) (auto simp: array_sort_def set_insert_by)

lemma length_insert_by: "length (insert_by cmp x ys) = Suc (length ys)"
  by (induction ys) auto

lemma length_array_sort: "length (array_sort cmp xs) = length xs"
  by (induction xs) (auto simp: array_sort_def length_insert_by)

lemma sortResults_cases:
  "sortResults bi rs = Inr rs \<or> sortResults bi rs = Inr (array_sort (compare_rank bi) rs)"
  by (cases rs) (auto simp: sortResults_def)

lemma sortResults_set: "sortResults bi rs = Inr rs' \<Longrightarrow> set rs' = set rs"
  using sortResults_cases [of bi rs] by (auto simp: set_array_sort)

lemma sortResults_length: "sortResults bi rs = Inr rs' \<Longrightarrow> length rs' = length rs"
  using sortResults_cases [of bi rs] by (auto simp: length_array_sort)

lemma parseInput_records:
  assumes "parseInput bi rawText opts = Inr rs" and "ob \<in> set rs"
  shows "\<exists>fh k r. ob = make_record bi opts fh k r"
proof -
  from assms(1) obtain header rows built where
    b: "build_results bi opts (final_header (columns opts) header) rows [] = Inr built" and
    s: "sortResults bi built = Inr rs"
    by (auto simp: parseInput_def Let_def split: sum.splits prod.splits)
  from s assms(2) have "ob \<in> set built" by (simp add: sortResults_set)
  with b show ?thesis by (auto simp: build_results_eq) blast
qed

lemma cell_Str: "\<exists>s. cell r i = Str s"
  by (simp add: cell_def)

lemma foldl_set_prop_Str:
  assumes "\<And>k v. get ob0 k = Some v \<Longrightarrow> \<exists>s. v = Str s"
    and "get (foldl (\<lambda>ob i. set_prop (f i) (cell r i) ob) ob0 xs) k = Some v"
  shows "\<exists>s. v = Str s"
  using assms
proof (induction xs arbitrary: ob0)
  case Nil
  then show ?case by simp
next
  case (Cons x xs)
  have "\<And>k v. get (set_prop (f x) (cell r x) ob0) k = Some v \<Longrightarrow> \<exists>s. v = Str s"
    using Cons.prems(1) cell_Str [of r x] by (auto dest!: get_set_prop_cases)
  from Cons.IH [OF this] Cons.prems(2) show ?case by simp
qed

lemma foldl_set_prop_proto:
  "get (foldl (\<lambda>ob i. set_prop (f i) (g i) ob) ob0 xs) (str ''__proto__'') =
   get ob0 (str ''__proto__'')"
  by (induction xs arbitrary: ob0) (simp_all add: get_set_prop_proto)

lemma assigned_Str:
  "get (assigned_fields fh r) k = Some v \<Longrightarrow> \<exists>s. v = Str s"
proof (cases fh)
  case None
  assume "get (assigned_fields fh r) k = Some v"
  with None have "get (foldl (\<lambda>ob i. set_prop (str ''col'' @ nat_to_string (i + 1)) (cell r i) ob) []
       [0..<length r]) k = Some v"
    by (simp add: assigned_fields_def assign_fallback_def)
  then show ?thesis by (rule foldl_set_prop_Str [rotated]) (simp add: get_def)
next
  case (Some h)
  assume "get (assigned_fields fh r) k = Some v"
  with Some have "get (foldl (\<lambda>ob i. set_prop (normalizeKey (h ! i)) (cell r i) ob) []
       [0..<length h]) k = Some v"
    by (simp add: assigned_fields_def assign_header_def)
  then show ?thesis by (rule foldl_set_prop_Str [rotated]) (simp add: get_def)
qed

lemma assigned_proto: "get (assigned_fields fh r) (str ''__proto__'') = None"
proof -
  have e: "get [] (str ''__proto__'') = None" by (simp add: get_def)
  show ?thesis
    by (cases fh)
      (simp_all add: assigned_fields_def assign_fallback_def assign_header_def
        foldl_set_prop_proto e)
qed

lemma row_fields_assigned: "row_fields bi fh r = coerce_fields bi (assigned_fields fh r)"
  by (simp add: row_fields_def assigned_fields_def)

lemma get_coerce_other:
  "k \<noteq> str ''rank'' \<Longrightarrow> k \<noteq> str ''rating'' \<Longrightarrow> get (coerce_fields bi ob) k = get ob k"
  by (auto simp: coerce_fields_def Let_def get_set_prop_other split: option.splits)

lemma row_fields_Str:
  "k \<noteq> str ''rank'' \<Longrightarrow> k \<noteq> str ''rating'' \<Longrightarrow> get (row_fields bi fh r) k = Some v
   \<Longrightarrow> \<exists>s. v = Str s"
  by (auto simp: row_fields_assigned get_coerce_other dest: assigned_Str)

lemma row_fields_rank:
  "get (row_fields bi fh r) (str ''rank'') = None \<or>
   get (row_fields bi fh r) (str ''rank'') = Some Null \<or>
   (\<exists>g. g \<noteq> [] \<and> (\<forall>c\<in>set g. is_digit c) \<and>
        get (row_fields bi fh r) (str ''rank'') = Some (Num (Number g)))"
proof (cases "get (assigned_fields fh r) (str ''rank'')")
  case None
  then show ?thesis by (simp add: row_fields_assigned get_coerce_rank)
next
  case (Some v)
  then obtain s where v: "v = Str s" using assigned_Str by blast
  show ?thesis
  proof (cases "first_digit_run s = []")
    case True
    with Some v show ?thesis
      by (simp add: row_fields_assigned get_coerce_rank coerceRank_Str)
  next
    case False
    from Some v False
    have "get (row_fields bi fh r) (str ''rank'') = Some (Num (Number (first_digit_run s)))"
      by (simp add: row_fields_assigned get_coerce_rank coerceRank_Str)
    with False first_digit_run_digits [of s] show ?thesis by blast
  qed
qed

lemma make_record_other:
  "k \<notin> fst ` set (meta opts) \<Longrightarrow> k \<noteq> str ''id'' \<Longrightarrow>
   get (make_record bi opts fh i r) k = get (row_fields bi fh r) k"
  by (simp add: make_record_def Let_def attach_meta_miss auto_id_def get_set_prop_other)

lemma make_record_proto: "get (make_record bi opts fh i r) (str ''__proto__'') = None"
proof -
  have "str ''__proto__'' \<noteq> str ''rank''" "str ''__proto__'' \<noteq> str ''rating''"
    by (simp_all add: str_def)
  then have "get (row_fields bi fh r) (str ''__proto__'') = None"
    by (simp add: row_fields_assigned get_coerce_other assigned_proto)
  then show ?thesis
    by (simp add: make_record_def Let_def attach_meta_proto auto_id_def get_set_prop_proto)
qed

lemma first_truthy_text:
  assumes "\<forall>k\<in>set ks. get ob k = None \<or> (\<exists>s. get ob k = Some (Str s))"
  shows "(case find truthy (map (get ob) ks) of Some (Some v) \<Rightarrow> to_String bi v | _ \<Rightarrow> d) =
         (case filter (\<lambda>s. s \<noteq> []) (map (field_text ob) ks) of [] \<Rightarrow> d | s # _ \<Rightarrow> s)"
  using assms
proof (induction ks)
  case Nil
  then show ?case by simp
next
  case (Cons k ks)
  from Cons.prems have "get ob k = None \<or> (\<exists>s. get ob k = Some (Str s))" by simp
  then show ?case
  proof
    assume "get ob k = None"
    with Cons show ?thesis by (simp add: field_text_def)
  next
    assume "\<exists>s. get ob k = Some (Str s)"
    then obtain s where "get ob k = Some (Str s)" ..
    with Cons show ?thesis by (simp add: field_text_def)
  qed
qed

lemma id_base_row_fields: "id_base bi (row_fields bi fh r) = base_spec (row_fields bi fh r)"
proof -
  have "\<forall>k\<in>set [str ''player'', str ''name'', str ''full_name'', str ''col2'', str ''col1''].
          get (row_fields bi fh r) k = None \<or> (\<exists>s. get (row_fields bi fh r) k = Some (Str s))"
  proof
    fix k assume "k \<in> set [str ''player'', str ''name'', str ''full_name'', str ''col2'', str ''col1'']"
    then have "k \<noteq> str ''rank''" "k \<noteq> str ''rating''" by (auto simp: str_def)
    then show "get (row_fields bi fh r) k = None \<or> (\<exists>s. get (row_fields bi fh r) k = Some (Str s))"
      using row_fields_Str [of k bi fh r] by (cases "get (row_fields bi fh r) k") auto
  qed
  from first_truthy_text [OF this] show ?thesis
    unfolding id_base_def base_spec_def .
qed

lemma number_to_string_nat:
  "n \<le> 2 ^ 53 \<Longrightarrow> number_to_string bi (Fin (of_nat n)) = nat_to_string n"
proof -
  assume "n \<le> 2 ^ 53"
  then have "(of_nat n :: rat) \<le> of_nat (2 ^ 53)" by (simp only: of_nat_le_iff)
  then have "\<bar>of_nat n :: rat\<bar> \<le> 2 ^ 53" by simp
  then show ?thesis by (simp add: number_to_string_def)
qed

lemma rank_or_sequence_row_fields:
  "rank_or_sequence bi (row_fields bi fh r) k = sequence_text bi (row_fields bi fh r) k"
  using row_fields_rank [of bi fh r]
  by (auto simp: rank_or_sequence_def sequence_text_def)

subsection \<open>Metadata\<close>

text \<open>
  C10. The metadata is written last, after the fields of the row, the coercions and the
  identifier: every entry of the metadata mapping (its keys are distinct) is in every
  returned record with the value of the metadata, whatever was stored under that key
  before. So a metadata key \<open>id\<close> replaces the synthesized identifier, and a metadata key
  \<open>state\<close> replaces the \<open>state\<close> column of the row. The name \<^verbatim>\<open>__proto__\<close> is the one
  that an assignment does not create: no record has it as a key.
\<close>

theorem metadata_overwrites:
  assumes "distinct (map fst (meta opts))" and "(k, v) \<in> set (meta opts)"
    and "parseInput bi rawText opts = Inr rs" and "ob \<in> set rs"
  shows "(k \<noteq> str ''__proto__'' \<longrightarrow> get ob k = Some (Str v)) \<and>
         get ob (str ''__proto__'') = None"
proof -
  obtain fh i r where ob: "ob = make_record bi opts fh i r"
    using parseInput_records [OF assms(3,4)] by blast
  have "k \<noteq> str ''__proto__'' \<longrightarrow> get ob k = Some (Str v)"
    unfolding ob using attach_meta_hit [OF assms(1,2)] by (simp add: make_record_def Let_def)
  moreover have "get ob (str ''__proto__'') = None"
    unfolding ob by (rule make_record_proto)
  ultimately show ?thesis by blast
qed

subsection \<open>Coercions of a row\<close>

text \<open>
  C4. When the fields assigned from a row have a \<open>rank\<close> key, its string is replaced in
  the record of the row by the first run of digits of the string (a \<^verbatim>\<open>#\<close> before it
  is skipped like any other character) as a number, or by null when the string has no
  digit; with a \<open>rating\<close> key, by the first numeric token as a number, or by null when
  there is none. These are the \<open>rank\<close> and the \<open>rating\<close> of the record that the loop
  builds, unless the metadata has that key. As a number means the nearest double: a run
  of digits whose value is below \<open>2^53\<close> gives exactly that value, and
  \<^verbatim>\<open>9007199254740993\<close> gives 9007199254740992. So \<^verbatim>\<open>#12\<close> and \<^verbatim>\<open>12\<close> give 12
  and \<^verbatim>\<open>rank: none\<close> gives null; \<^verbatim>\<open>8.5\<close> gives 8.5, \<^verbatim>\<open>-3\<close> gives -3 and
  \<^verbatim>\<open>n/a\<close> gives null.
\<close>

theorem coercion_rank_rating:
  "(get (assigned_fields fh r) (str ''rank'') = Some (Str s) \<longrightarrow>
      get (row_fields bi fh r) (str ''rank'') =
        Some (if first_digit_run s = [] then Null else Num (Number (first_digit_run s)))) \<and>
   (get (assigned_fields fh r) (str ''rating'') = Some (Str t) \<longrightarrow>
      get (row_fields bi fh r) (str ''rating'') =
        Some (case first_number_token t of None \<Rightarrow> Null | Some n \<Rightarrow> Num (Number n))) \<and>
   (str ''rank'' \<notin> fst ` set (meta opts) \<longrightarrow>
      get (make_record bi opts fh k r) (str ''rank'') = get (row_fields bi fh r) (str ''rank'')) \<and>
   (str ''rating'' \<notin> fst ` set (meta opts) \<longrightarrow>
      get (make_record bi opts fh k r) (str ''rating'') =
      get (row_fields bi fh r) (str ''rating'')) \<and>
   (g \<noteq> [] \<and> (\<forall>c\<in>set g. is_digit c) \<and> digits_value g < 2 ^ 53 \<longrightarrow>
      Number g = Fin (of_nat (digits_value g))) \<and>
   coerceRank bi (Str (str ''#12'')) = Num (Fin 12) \<and>
   coerceRank bi (Str (str ''12'')) = Num (Fin 12) \<and>
   coerceRank bi (Str (str ''rank: none'')) = Null \<and>
   coerceRank bi (Str (str ''9007199254740993'')) = Num (Fin 9007199254740992) \<and>
   coerceNumber bi (Str (str ''8.5'')) = Num (Fin (17 / 2)) \<and>
   coerceNumber bi (Str (str ''-3'')) = Num (Fin (- 3)) \<and>
   coerceNumber bi (Str (str ''n/a'')) = Null"
proof -
  have r: "first_digit_run (str ''#12'') = str ''12''" "first_digit_run (str ''12'') = str ''12''"
    "first_digit_run (str ''rank: none'') = []"
    "first_digit_run (str ''9007199254740993'') = str ''9007199254740993''"
    by (simp_all add: first_digit_run_def str_def is_digit_def)
  have ev: "coerceRank bi (Str (str ''#12'')) = Num (Fin 12)"
    "coerceRank bi (Str (str ''12'')) = Num (Fin 12)"
    "coerceRank bi (Str (str ''rank: none'')) = Null"
    "coerceRank bi (Str (str ''9007199254740993'')) = Num (Fin 9007199254740992)"
    unfolding coerceRank_Str r by (simp_all add: Number_examples) (simp_all add: str_def)
  have t: "first_number_token (str ''8.5'') = Some (str ''8.5'')"
    "first_number_token (str ''-3'') = Some (str ''-3'')"
    "first_number_token (str ''n/a'') = None"
    by (simp_all add: first_number_token_def decimal_token_def str_def is_digit_def)
  have ev2: "coerceNumber bi (Str (str ''8.5'')) = Num (Fin (17 / 2))"
    "coerceNumber bi (Str (str ''-3'')) = Num (Fin (- 3))"
    "coerceNumber bi (Str (str ''n/a'')) = Null"
    unfolding coerceNumber_Str t by (simp_all add: Number_examples)
  have a: "get (assigned_fields fh r) (str ''rank'') = Some (Str s) \<longrightarrow>
      get (row_fields bi fh r) (str ''rank'') =
        Some (if first_digit_run s = [] then Null else Num (Number (first_digit_run s)))"
    by (simp add: row_fields_assigned get_coerce_rank coerceRank_Str)
  have b: "get (assigned_fields fh r) (str ''rating'') = Some (Str t) \<longrightarrow>
      get (row_fields bi fh r) (str ''rating'') =
        Some (case first_number_token t of None \<Rightarrow> Null | Some n \<Rightarrow> Num (Number n))"
    by (simp add: row_fields_assigned get_coerce_rating coerceNumber_Str)
  have c: "str ''rank'' \<notin> fst ` set (meta opts) \<longrightarrow>
      get (make_record bi opts fh k r) (str ''rank'') = get (row_fields bi fh r) (str ''rank'')"
    by (simp add: make_record_other)
  have d: "str ''rating'' \<notin> fst ` set (meta opts) \<longrightarrow>
      get (make_record bi opts fh k r) (str ''rating'') =
      get (row_fields bi fh r) (str ''rating'')"
    by (simp add: make_record_other)
  have e: "g \<noteq> [] \<and> (\<forall>c\<in>set g. is_digit c) \<and> digits_value g < 2 ^ 53 \<longrightarrow>
      Number g = Fin (of_nat (digits_value g))"
    using Number_digits [of g] by blast
  show ?thesis using a b c d e ev ev2 by blast
qed

subsection \<open>Identifier synthesis\<close>

text \<open>
  C6. With identifier synthesis enabled, the identifier stored for a row is the slug of
  base, hyphen, number: the base is the first non-empty of the fields \<open>player\<close>, \<open>name\<close>,
  \<open>full_name\<close>, \<open>col2\<close>, \<open>col1\<close> of the row's record, else \<^verbatim>\<open>row\<close>; the number is the
  text of the rank when the rank is not null, and otherwise of \<open>k + 1\<close>, where \<open>k\<close> is the
  count of records produced so far, which is what the loop passes for a row it keeps.
  The rank of the record of a row is null, absent or the double nearest to a run of
  digits, and the text of a rank of at most \<open>2^53\<close> is its decimal numeral. The
  metadata is attached afterwards, so this is the \<open>id\<close> of the returned record unless the
  metadata has an \<open>id\<close> key of its own.
\<close>

theorem id_synthesis:
  assumes "addId opts"
  shows "make_record bi opts fh k r = attach_meta (meta opts) (auto_id bi k (row_fields bi fh r)) \<and>
         get (auto_id bi k (row_fields bi fh r)) (str ''id'') =
           Some (Str (slugify (base_spec (row_fields bi fh r) @ [45] @
             sequence_text bi (row_fields bi fh r) k))) \<and>
         (str ''id'' \<notin> fst ` set (meta opts) \<longrightarrow>
            get (make_record bi opts fh k r) (str ''id'') =
              Some (Str (slugify (base_spec (row_fields bi fh r) @ [45] @
                sequence_text bi (row_fields bi fh r) k)))) \<and>
         (get (row_fields bi fh r) (str ''rank'') = Some (Num x) \<longrightarrow>
            sequence_text bi (row_fields bi fh r) k = number_to_string bi x) \<and>
         (get (row_fields bi fh r) (str ''rank'') = None \<or>
          get (row_fields bi fh r) (str ''rank'') = Some Null \<longrightarrow>
            sequence_text bi (row_fields bi fh r) k = nat_to_string (k + 1)) \<and>
         (get (row_fields bi fh r) (str ''rank'') = None \<or>
          get (row_fields bi fh r) (str ''rank'') = Some Null \<or>
          (\<exists>g. g \<noteq> [] \<and> (\<forall>c\<in>set g. is_digit c) \<and>
               get (row_fields bi fh r) (str ''rank'') = Some (Num (Number g)))) \<and>
         (n \<le> 2 ^ 53 \<longrightarrow> number_to_string bi (Fin (of_nat n)) = nat_to_string n) \<and>
         number_to_string bi PosInf = str ''Infinity'' \<and>
         (\<not> discarded r \<longrightarrow>
            build_results bi opts fh (r # rows) acc =
            build_results bi opts fh rows (acc @ [make_record bi opts fh (length acc) r]))"
proof -
  have m: "make_record bi opts fh k r = attach_meta (meta opts) (auto_id bi k (row_fields bi fh r))"
    using assms by (simp add: make_record_def Let_def)
  have a: "get (auto_id bi k (row_fields bi fh r)) (str ''id'') =
           Some (Str (slugify (base_spec (row_fields bi fh r) @ [45] @
             sequence_text bi (row_fields bi fh r) k)))"
    by (simp add: auto_id_def get_set_prop id_base_row_fields rank_or_sequence_row_fields)
  have a': "str ''id'' \<notin> fst ` set (meta opts) \<longrightarrow>
            get (make_record bi opts fh k r) (str ''id'') =
              Some (Str (slugify (base_spec (row_fields bi fh r) @ [45] @
                sequence_text bi (row_fields bi fh r) k)))"
    unfolding m using a by (simp add: attach_meta_miss)
  have b: "get (row_fields bi fh r) (str ''rank'') = Some (Num x) \<longrightarrow>
            sequence_text bi (row_fields bi fh r) k = number_to_string bi x"
    by (simp add: sequence_text_def)
  have b': "get (row_fields bi fh r) (str ''rank'') = None \<or>
          get (row_fields bi fh r) (str ''rank'') = Some Null \<longrightarrow>
            sequence_text bi (row_fields bi fh r) k = nat_to_string (k + 1)"
    by (auto simp: sequence_text_def)
  have c: "\<not> discarded r \<longrightarrow>
            build_results bi opts fh (r # rows) acc =
            build_results bi opts fh rows (acc @ [make_record bi opts fh (length acc) r])"
    by (auto simp: discarded_def is_separator_row_def is_short_row_eq)
  have d: "n \<le> 2 ^ 53 \<longrightarrow> number_to_string bi (Fin (of_nat n)) = nat_to_string n"
    by (simp add: number_to_string_nat)
  have e: "number_to_string bi PosInf = str ''Infinity''"
    by (simp add: number_to_string_def)
  from m a a' b b' c d e row_fields_rank [of bi fh r] show ?thesis by blast
qed

subsection \<open>Worked examples\<close>

text \<open>The definitions that a concrete evaluation unfolds.\<close>

lemmas Number_evals = Number_examples [unfolded str_def, simplified]

lemmas eval_defs =
  str_def is_space_def is_digit_def is_lower_alnum_def is_key_char_def lower_char_def
  toLowerCase_def trim_end_def trim_def startsWith_def cons_hd_def
  number_to_string_def digits_value_def Number_evals slugify_def normalizeKey_def
  nonblank_def detectFormat_def table_cells_def parseMarkdownTable_def splitSpacedLine_def
  parseDelimited_def headerWords_def guessHeader_def number_token_def coerceRank_def
  coerceNumber_def get_def set_prop_def cell_def assign_header_def assign_fallback_def
  assigned_fields_def coerce_fields_def id_base_def rank_or_sequence_def sequence_text_def
  auto_id_def attach_meta_def
  row_fields_def make_record_def is_separator_row_def is_short_row_def rank_operand_def
  compare_rank_def positive_def array_sort_def rank_nonnull_def sortResults_def
  slice_from_def linesAll_of_def extract_rows_def final_header_def
  Let_def nat_to_string.simps

text \<open>
  The input \<^verbatim>\<open>Bob  NY\<close> read with the columns \<open>player\<close>, \<open>state\<close> and the metadata
  \<open>state = CT\<close>, \<open>id = x\<close>: the one record has \<open>CT\<close> as its state, not the \<open>NY\<close> of the
  row, and \<open>x\<close> as its identifier, not the synthesized \<^verbatim>\<open>bob-1\<close>.
\<close>

lemma ex_fields: "row_fields bi (Some [str ''player'', str ''state'']) [str ''Bob'', str ''NY''] =
    [(str ''player'', Str (str ''Bob'')), (str ''state'', Str (str ''NY''))]"
  by (simp add: eval_defs)

lemma ex_auto_id:
  "auto_id bi 0 [(str ''player'', Str (str ''Bob'')), (str ''state'', Str (str ''NY''))] =
   [(str ''player'', Str (str ''Bob'')), (str ''state'', Str (str ''NY'')),
    (str ''id'', Str (str ''bob-1''))]"
  by (simp add: eval_defs)

lemma ex_meta: "attach_meta [(str ''state'', str ''CT''), (str ''id'', str ''x'')]
     [(str ''player'', Str (str ''Bob'')), (str ''state'', Str (str ''NY'')),
      (str ''id'', Str (str ''bob-1''))] =
   [(str ''player'', Str (str ''Bob'')), (str ''state'', Str (str ''CT'')),
    (str ''id'', Str (str ''x''))]"
  by (simp add: eval_defs)

lemma ex_record:
  "make_record bi \<lparr>columns = Some [str ''player'', str ''state''], addId = True,
      meta = [(str ''state'', str ''CT''), (str ''id'', str ''x'')]\<rparr>
     (Some [str ''player'', str ''state'']) 0 [str ''Bob'', str ''NY''] =
   [(str ''player'', Str (str ''Bob'')), (str ''state'', Str (str ''CT'')),
    (str ''id'', Str (str ''x''))]"
  by (simp add: make_record_def ex_fields ex_auto_id ex_meta)

lemma ex_lines: "linesAll_of (str ''Bob  NY'') = [str ''Bob  NY'']"
  by (simp add: eval_defs)

lemma ex_format: "detectFormat (str ''Bob  NY'') = Spaced"
  by (simp add: eval_defs)

lemma ex_rows: "extract_rows Spaced [str ''Bob  NY''] = Inr (None, [[str ''Bob'', str ''NY'']])"
  by (simp add: eval_defs)

lemma ex_build:
  "build_results bi \<lparr>columns = Some [str ''player'', str ''state''], addId = True,
      meta = [(str ''state'', str ''CT''), (str ''id'', str ''x'')]\<rparr>
     (Some [str ''player'', str ''state'']) [[str ''Bob'', str ''NY'']] [] =
   Inr [[(str ''player'', Str (str ''Bob'')), (str ''state'', Str (str ''CT'')),
         (str ''id'', Str (str ''x''))]]"
proof -
  have "\<not> discarded [str ''Bob'', str ''NY'']"
    by (simp add: discarded_def eval_defs)
  then show ?thesis by (simp add: build_results_eq ex_record)
qed

lemma ex_sort:
  "sortResults bi
     [[(str ''player'', Str (str ''Bob'')), (str ''state'', Str (str ''CT'')),
       (str ''id'', Str (str ''x''))]] =
   Inr [[(str ''player'', Str (str ''Bob'')), (str ''state'', Str (str ''CT'')),
         (str ''id'', Str (str ''x''))]]"
  by (simp add: eval_defs)

lemma ex_parse:
  "parseInput bi (str ''Bob  NY'')
     \<lparr>columns = Some [str ''player'', str ''state''], addId = True,
      meta = [(str ''state'', str ''CT''), (str ''id'', str ''x'')]\<rparr> =
   Inr [[(str ''player'', Str (str ''Bob'')), (str ''state'', Str (str ''CT'')),
         (str ''id'', Str (str ''x''))]]"
  by (simp add: parseInput_def ex_lines ex_format ex_rows final_header_def ex_build ex_sort
      del: build_results.simps)

theorem metadata_overwrites_witness:
  "parseInput plain_builtins (str ''Bob  NY'')
     \<lparr>columns = Some [str ''player'', str ''state''], addId = True,
      meta = [(str ''state'', str ''CT''), (str ''id'', str ''x'')]\<rparr> =
   Inr [[(str ''player'', Str (str ''Bob'')), (str ''state'', Str (str ''CT'')),
         (str ''id'', Str (str ''x''))]] \<and>
   str ''state'' \<noteq> str ''__proto__'' \<and>
   get [(str ''player'', Str (str ''Bob'')), (str ''state'', Str (str ''CT'')),
        (str ''id'', Str (str ''x''))] (str ''state'') = Some (Str (str ''CT'')) \<and>
   get [(str ''player'', Str (str ''Bob'')), (str ''state'', Str (str ''CT'')),
        (str ''id'', Str (str ''x''))] (str ''id'') = Some (Str (str ''x'')) \<and>
   get [(str ''player'', Str (str ''Bob'')), (str ''state'', Str (str ''CT'')),
        (str ''id'', Str (str ''x''))] (str ''__proto__'') = None"
proof -
  let ?opts = "\<lparr>columns = Some [str ''player'', str ''state''], addId = True,
      meta = [(str ''state'', str ''CT''), (str ''id'', str ''x'')]\<rparr>"
  let ?ob = "[(str ''player'', Str (str ''Bob'')), (str ''state'', Str (str ''CT'')),
        (str ''id'', Str (str ''x''))]"
  have d: "distinct (map fst (meta ?opts))" by (simp add: str_def)
  have s: "(str ''state'', str ''CT'') \<in> set (meta ?opts)" by simp
  have i: "(str ''id'', str ''x'') \<in> set (meta ?opts)" by simp
  have p: "parseInput plain_builtins (str ''Bob  NY'') ?opts = Inr [?ob]" by (rule ex_parse)
  have m: "?ob \<in> set [?ob]" by simp
  have n: "str ''state'' \<noteq> str ''__proto__''" "str ''id'' \<noteq> str ''__proto__''"
    by (simp_all add: str_def)
  from metadata_overwrites [OF d s p m] metadata_overwrites [OF d i p m] n p
  show ?thesis by blast
qed

text \<open>
  The row \<^verbatim>\<open>#12\<close>, \<^verbatim>\<open>8.5\<close> under the header \<open>Rank\<close>, \<open>Rating\<close>: the record has the
  numbers 12 and 8.5.
\<close>

lemma ex_assigned:
  "assigned_fields (Some [str ''Rank'', str ''Rating'']) [str ''#12'', str ''8.5''] =
     [(str ''rank'', Str (str ''#12'')), (str ''rating'', Str (str ''8.5''))]"
  by (simp add: eval_defs)

theorem coercion_rank_rating_witness:
  "get (assigned_fields (Some [str ''Rank'', str ''Rating'']) [str ''#12'', str ''8.5''])
     (str ''rank'') = Some (Str (str ''#12'')) \<and>
   get (assigned_fields (Some [str ''Rank'', str ''Rating'']) [str ''#12'', str ''8.5''])
     (str ''rating'') = Some (Str (str ''8.5'')) \<and>
   str ''rank'' \<notin> fst ` set (meta \<lparr>columns = None, addId = True, meta = []\<rparr>) \<and>
   str ''rating'' \<notin> fst ` set (meta \<lparr>columns = None, addId = True, meta = []\<rparr>) \<and>
   str ''12'' \<noteq> [] \<and> list_all is_digit (str ''12'') \<and> digits_value (str ''12'') < 2 ^ 53 \<and>
   get (make_record plain_builtins \<lparr>columns = None, addId = True, meta = []\<rparr>
          (Some [str ''Rank'', str ''Rating'']) 0 [str ''#12'', str ''8.5''])
     (str ''rank'') = Some (Num (Fin 12)) \<and>
   get (make_record plain_builtins \<lparr>columns = None, addId = True, meta = []\<rparr>
          (Some [str ''Rank'', str ''Rating'']) 0 [str ''#12'', str ''8.5''])
     (str ''rating'') = Some (Num (Fin (17 / 2))) \<and>
   Number (str ''12'') = Fin 12"
proof -
  let ?fh = "Some [str ''Rank'', str ''Rating'']"
  let ?r = "[str ''#12'', str ''8.5'']"
  let ?opts = "\<lparr>columns = None, addId = True, meta = []\<rparr>"
  have g: "get (assigned_fields ?fh ?r) (str ''rank'') = Some (Str (str ''#12''))"
    "get (assigned_fields ?fh ?r) (str ''rating'') = Some (Str (str ''8.5''))"
    unfolding ex_assigned by (simp_all add: get_def str_def)
  have k: "str ''rank'' \<notin> fst ` set (meta ?opts)" "str ''rating'' \<notin> fst ` set (meta ?opts)"
    by simp_all
  have r: "first_digit_run (str ''#12'') = str ''12''"
    by (simp add: first_digit_run_def str_def is_digit_def)
  have t: "first_number_token (str ''8.5'') = Some (str ''8.5'')"
    by (simp add: first_number_token_def decimal_token_def str_def is_digit_def)
  have ne: "str ''12'' \<noteq> []" by (simp add: str_def)
  have v: "\<forall>c\<in>set (str ''12''). is_digit c" "digits_value (str ''12'') < 2 ^ 53"
    "digits_value (str ''12'') = 12"
    by (simp_all add: digits_value_def str_def is_digit_def)
  note th = coercion_rank_rating [of ?fh ?r "str ''#12''" plain_builtins "str ''8.5''" ?opts 0
      "str ''12''", unfolded r t]
  from th g k have a: "get (make_record plain_builtins ?opts ?fh 0 ?r) (str ''rank'') =
      Some (if str ''12'' = [] then Null else Num (Number (str ''12'')))"
    by metis
  from th g k have b: "get (make_record plain_builtins ?opts ?fh 0 ?r) (str ''rating'') =
      Some (case Some (str ''8.5'') of None \<Rightarrow> Null | Some n \<Rightarrow> Num (Number n))"
    by metis
  from th ne v have c: "Number (str ''12'') = Fin (of_nat (digits_value (str ''12'')))"
    by blast
  from a ne have a': "get (make_record plain_builtins ?opts ?fh 0 ?r) (str ''rank'') =
      Some (Num (Fin 12))"
    by (simp add: Number_examples)
  from b have b': "get (make_record plain_builtins ?opts ?fh 0 ?r) (str ''rating'') =
      Some (Num (Fin (17 / 2)))"
    by (simp add: Number_examples)
  from c v(3) have c': "Number (str ''12'') = Fin 12" by simp
  from v(1) have v': "list_all is_digit (str ''12'')" by (simp add: list_all_iff)
  from g k ne v' v(2) a' b' c' show ?thesis by blast
qed

text \<open>
  The row \<^verbatim>\<open>#3\<close>, \<^verbatim>\<open>O'Brien\<close> under the header \<open>Rank\<close>, \<open>Player\<close> gets the
  identifier \<^verbatim>\<open>obrien-3\<close>; the row \<^verbatim>\<open>x\<close>, \<^verbatim>\<open>Ann\<close>, after one record, has a null
  rank and gets \<^verbatim>\<open>ann-2\<close>; and the rank \<^verbatim>\<open>9007199254740993\<close> is in the identifier
  as the double it is read as.
\<close>

lemma ex_row_fields:
  "row_fields bi (Some [str ''Rank'', str ''Player'']) [str ''#3'', str ''O'Brien''] =
     [(str ''rank'', Num (Fin 3)), (str ''player'', Str (str ''O'Brien''))]"
  "row_fields bi (Some [str ''Rank'', str ''Player'']) [str ''x'', str ''Ann''] =
     [(str ''rank'', Null), (str ''player'', Str (str ''Ann''))]"
  "row_fields bi (Some [str ''Rank'', str ''Player'']) [str ''9007199254740993'', str ''a''] =
     [(str ''rank'', Num (Fin 9007199254740992)), (str ''player'', Str (str ''a''))]"
  by (simp_all add: eval_defs)

lemma ex_slugs:
  "slugify (str ''O'Brien'' @ [45] @ str ''3'') = str ''obrien-3''"
  "slugify (str ''Ann'' @ [45] @ str ''2'') = str ''ann-2''"
  "slugify (str ''a'' @ [45] @ str ''9007199254740992'') = str ''a-9007199254740992''"
  by (simp_all add: eval_defs)

theorem id_synthesis_witness:
  "addId \<lparr>columns = None, addId = True, meta = []\<rparr> \<and>
   str ''id'' \<notin> fst ` set (meta \<lparr>columns = None, addId = True, meta = []\<rparr>) \<and>
   \<not> discarded [str ''#3'', str ''O'Brien''] \<and>
   (3 :: nat) \<le> 2 ^ 53 \<and>
   get (row_fields plain_builtins (Some [str ''Rank'', str ''Player'']) [str ''#3'', str ''O'Brien''])
     (str ''rank'') = Some (Num (Fin 3)) \<and>
   get (make_record plain_builtins \<lparr>columns = None, addId = True, meta = []\<rparr>
          (Some [str ''Rank'', str ''Player'']) 0 [str ''#3'', str ''O'Brien''])
     (str ''id'') = Some (Str (str ''obrien-3'')) \<and>
   get (row_fields plain_builtins (Some [str ''Rank'', str ''Player'']) [str ''x'', str ''Ann''])
     (str ''rank'') = Some Null \<and>
   get (make_record plain_builtins \<lparr>columns = None, addId = True, meta = []\<rparr>
          (Some [str ''Rank'', str ''Player'']) 1 [str ''x'', str ''Ann''])
     (str ''id'') = Some (Str (str ''ann-2'')) \<and>
   get (make_record plain_builtins \<lparr>columns = None, addId = True, meta = []\<rparr>
          (Some [str ''Rank'', str ''Player'']) 0 [str ''9007199254740993'', str ''a''])
     (str ''id'') = Some (Str (str ''a-9007199254740992''))"
proof -
  let ?fh = "Some [str ''Rank'', str ''Player'']"
  let ?opts = "\<lparr>columns = None, addId = True, meta = []\<rparr>"
  let ?o1 = "[(str ''rank'', Num (Fin 3)), (str ''player'', Str (str ''O'Brien''))]"
  let ?o2 = "[(str ''rank'', Null), (str ''player'', Str (str ''Ann''))]"
  let ?o3 = "[(str ''rank'', Num (Fin 9007199254740992)), (str ''player'', Str (str ''a''))]"
  have h: "addId ?opts" by simp
  have i: "str ''id'' \<notin> fst ` set (meta ?opts)" by simp
  have d: "\<not> discarded [str ''#3'', str ''O'Brien'']"
    by (simp add: discarded_def eval_defs)
  have b: "base_spec ?o1 = str ''O'Brien''" "base_spec ?o2 = str ''Ann''" "base_spec ?o3 = str ''a''"
    by (simp_all add: base_spec_def field_text_def get_def str_def)
  have g: "get ?o1 (str ''rank'') = Some (Num (Fin 3))" "get ?o2 (str ''rank'') = Some Null"
    "get ?o3 (str ''rank'') = Some (Num (Fin 9007199254740992))"
    by (simp_all add: get_def)
  have n: "(3 :: nat) \<le> 2 ^ 53" "(9007199254740992 :: nat) \<le> 2 ^ 53" by simp_all
  have f: "Fin (of_nat 3) = Fin 3" "Fin (of_nat 9007199254740992) = Fin 9007199254740992"
    by simp_all
  have t: "nat_to_string 3 = str ''3''" "nat_to_string (1 + 1) = str ''2''"
    "nat_to_string 9007199254740992 = str ''9007199254740992''"
    by (simp_all add: nat_to_string.simps str_def)
  note t1 = id_synthesis [OF h, of plain_builtins ?fh 0 "[str ''#3'', str ''O'Brien'']" "Fin 3" 3,
      unfolded ex_row_fields b f]
  note t2 = id_synthesis [OF h, of plain_builtins ?fh 1 "[str ''x'', str ''Ann'']" "Fin 0" 0,
      unfolded ex_row_fields b]
  note t3 = id_synthesis [OF h, of plain_builtins ?fh 0 "[str ''9007199254740993'', str ''a'']"
      "Fin 9007199254740992" 9007199254740992, unfolded ex_row_fields b f]
  from t1 g(1) n(1) have s1: "sequence_text plain_builtins ?o1 0 = str ''3''"
    unfolding t [symmetric] by metis
  from t2 g(2) have s2: "sequence_text plain_builtins ?o2 1 = str ''2''"
    unfolding t [symmetric] by metis
  from t3 g(3) n(2) have s3: "sequence_text plain_builtins ?o3 0 = str ''9007199254740992''"
    unfolding t [symmetric] by metis
  from t1 i have r1: "get (make_record plain_builtins ?opts ?fh 0 [str ''#3'', str ''O'Brien''])
      (str ''id'') = Some (Str (str ''obrien-3''))"
    unfolding s1 ex_slugs by blast
  from t2 i have r2: "get (make_record plain_builtins ?opts ?fh 1 [str ''x'', str ''Ann''])
      (str ''id'') = Some (Str (str ''ann-2''))"
    unfolding s2 ex_slugs by blast
  from t3 i have r3: "get (make_record plain_builtins ?opts ?fh 0 [str ''9007199254740993'', str ''a''])
      (str ''id'') = Some (Str (str ''a-9007199254740992''))"
    unfolding s3 ex_slugs by blast
  show ?thesis
    unfolding ex_row_fields using h i d n(1) g(1,2) r1 r2 r3 by blast
qed

subsection \<open>Totality\<close>

lemma parseMarkdownTable_ok:
  "\<exists>h rows. parseMarkdownTable lines = Inr (h, rows) \<and> length rows \<le> length lines"
proof (cases "filter (\<lambda>l. startsWith (trim l) [124]) lines")
  case Nil
  then show ?thesis by (simp add: parseMarkdownTable_def del: filter_False)
next
  case (Cons t ts)
  have "length (filter (\<lambda>l. startsWith (trim l) [124]) lines) \<le> length lines" by simp
  then have "length ts \<le> length lines" unfolding Cons by simp
  then show ?thesis unfolding parseMarkdownTable_def Let_def Cons by auto
qed

lemma slice_from_length: "length (slice_from i xs) \<le> length xs"
  by (simp add: slice_from_def)

lemma extract_rows_ok:
  "\<exists>h rows. extract_rows fmt lines = Inr (h, rows) \<and> length rows \<le> length lines"
proof (cases fmt)
  case Md
  then show ?thesis using parseMarkdownTable_ok [of lines] by (simp add: extract_rows_def)
next
  case Tsv
  then show ?thesis
    by (auto simp: extract_rows_def parseDelimited_def slice_from_length split: option.splits)
next
  case Csv
  then show ?thesis
    by (auto simp: extract_rows_def parseDelimited_def slice_from_length split: option.splits)
next
  case Spaced
  then show ?thesis
    by (auto simp: extract_rows_def slice_from_length split: option.splits)
qed

lemma sortResults_ok: "\<exists>rs'. sortResults bi rs = Inr rs' \<and> length rs' = length rs"
  using sortResults_cases [of bi rs] by (auto simp: length_array_sort)

text \<open>
  C9. For every input string and every options structure the conversion returns a
  sequence of records: none of the error branches of the model (a property read on
  \<^verbatim>\<open>undefined\<close>) is reachable, every function of the model terminates, and there
  are at most as many records as non-blank lines.
\<close>

theorem parseInput_total:
  "\<exists>rs. parseInput bi rawText opts = Inr rs \<and> length rs \<le> length (linesAll_of rawText)"
proof -
  obtain h rows where e: "extract_rows (detectFormat rawText) (linesAll_of rawText) = Inr (h, rows)"
    and l: "length rows \<le> length (linesAll_of rawText)"
    using extract_rows_ok by blast
  let ?built = "map (\<lambda>(i, r). make_record bi opts (final_header (columns opts) h) i r)
                  (enumerate 0 (filter (\<lambda>r. \<not> discarded r) rows))"
  have b: "build_results bi opts (final_header (columns opts) h) rows [] = Inr ?built"
    by (simp add: build_results_eq)
  have lb: "length ?built \<le> length rows" by simp
  obtain rs where s: "sortResults bi ?built = Inr rs" and ls: "length rs = length ?built"
    using sortResults_ok by blast
  from l lb ls have "length rs \<le> length (linesAll_of rawText)" by linarith
  moreover have "parseInput bi rawText opts = Inr rs"
    unfolding parseInput_def Let_def e using b s by simp
  ultimately show ?thesis by blast
qed

subsection \<open>The final sort\<close>

lemma positive_minus: "positive (num_minus x y) \<longleftrightarrow> number_key y < number_key x"
  by (cases x; cases y) (simp_all add: positive_def number_key_def)

lemma num_minus_self: "\<not> positive (num_minus x x)"
  by (simp add: positive_minus)

lemma positive_None: "\<not> positive None"
  by (simp add: positive_def)

lemma rank_operand_numeric:
  "rank_numeric ob \<Longrightarrow> \<exists>x. rank_operand bi ob = Some x \<and> number_key x = rank_key ob"
  by (auto simp: rank_operand_def rank_key_def rank_numeric_def number_key_def
      split: option.splits jvalue.splits)

lemma compare_rank_numeric:
  assumes "rank_numeric x" and "rank_numeric y"
  shows "positive (compare_rank bi x y) \<longleftrightarrow> \<not> rank_key x \<le> rank_key y"
proof -
  from rank_operand_numeric [OF assms(1)] obtain a where
    a: "rank_operand bi x = Some a" "number_key a = rank_key x" by blast
  from rank_operand_numeric [OF assms(2)] obtain b where
    b: "rank_operand bi y = Some b" "number_key b = rank_key y" by blast
  have "positive (compare_rank bi x y) \<longleftrightarrow> number_key b < number_key a"
    by (simp add: compare_rank_def a(1) b(1) positive_minus)
  then show ?thesis unfolding a(2) b(2) by (simp add: not_le)
qed

lemma insert_by_insort:
  "rank_numeric x \<Longrightarrow> \<forall>y\<in>set ys. rank_numeric y \<Longrightarrow>
   insert_by (compare_rank bi) x ys = insort_key rank_key x ys"
  by (induction ys) (simp_all add: compare_rank_numeric)

lemma array_sort_sort_key:
  "\<forall>y\<in>set rs. rank_numeric y \<Longrightarrow> array_sort (compare_rank bi) rs = sort_key rank_key rs"
proof (induction rs)
  case Nil
  then show ?case by (simp add: array_sort_def)
next
  case (Cons x rs)
  then have "array_sort (compare_rank bi) rs = sort_key rank_key rs" by simp
  moreover have "\<forall>y\<in>set (sort_key rank_key rs). rank_numeric y" using Cons.prems by simp
  ultimately show ?case using Cons.prems by (simp add: array_sort_def insert_by_insort)
qed

lemma insert_by_tie: "\<forall>y\<in>set ys. \<not> positive (cmp x y) \<Longrightarrow> insert_by cmp x ys = x # ys"
  by (cases ys) simp_all

lemma array_sort_ties:
  "\<forall>x\<in>set xs. \<forall>y\<in>set xs. \<not> positive (cmp x y) \<Longrightarrow> array_sort cmp xs = xs"
proof (induction xs)
  case Nil
  then show ?case by (simp add: array_sort_def)
next
  case (Cons x xs)
  then have "array_sort cmp xs = xs" by simp
  then have "array_sort cmp (x # xs) = insert_by cmp x xs" by (simp add: array_sort_def)
  also have "\<dots> = x # xs" using Cons.prems by (intro insert_by_tie) simp
  finally show ?case .
qed

lemma sort_key_ties:
  assumes "\<forall>x\<in>set xs. f x = c"
  shows "sort_key f xs = xs"
proof -
  have "sort_key f xs = filter (\<lambda>x. f x = c) (sort_key f xs)" using assms by simp
  also have "\<dots> = filter (\<lambda>x. f x = c) xs" by (rule sort_key_stable)
  also have "\<dots> = xs" using assms by simp
  finally show ?thesis .
qed

lemma sorted_nulls_last:
  assumes "sorted (map rank_key res)" and "i < length res" and "j < length res"
    and "rank_key (res ! i) < (0, 999999)" and "\<not> rank_nonnull (res ! j)"
  shows "i < j"
proof (rule ccontr)
  assume "\<not> i < j"
  then have "j \<le> i" by simp
  with assms(1,2) have "rank_key (res ! j) \<le> rank_key (res ! i)"
    by (simp add: sorted_iff_nth_mono)
  moreover have "rank_key (res ! j) = (0, 999999)"
    using assms(5) by (auto simp: rank_key_def rank_nonnull_def split: option.splits jvalue.splits)
  ultimately show False using assms(4) by simp
qed

text \<open>
  The records that the loop produces have numeric, null or absent ranks, unless the
  metadata has a \<open>rank\<close> key; then they all have the same string as their rank.
\<close>

lemma make_record_rank_numeric:
  assumes "str ''rank'' \<notin> fst ` set (meta opts)"
  shows "rank_numeric (make_record bi opts fh k r)"
proof -
  have "get (make_record bi opts fh k r) (str ''rank'') = get (row_fields bi fh r) (str ''rank'')"
    using assms by (simp add: make_record_other)
  then show ?thesis
    using row_fields_rank [of bi fh r] by (auto simp: rank_numeric_def)
qed

lemma produced_rank_numeric:
  assumes "str ''rank'' \<notin> fst ` set (meta opts)" and "build_results bi opts fh rows [] = Inr rs"
  shows "\<forall>ob\<in>set rs. rank_numeric ob"
  using assms by (auto simp: build_results_eq make_record_rank_numeric)

lemma produced_rank_meta:
  assumes "str ''rank'' \<in> fst ` set (meta opts)" and "build_results bi opts fh rows [] = Inr rs"
  shows "\<exists>v. \<forall>ob\<in>set rs. get ob (str ''rank'') = Some (Str v)"
proof -
  from attach_meta_rank_const [OF assms(1)] obtain v where
    v: "\<forall>ob. get (attach_meta (meta opts) ob) (str ''rank'') = Some (Str v)" by auto
  have "\<forall>ob\<in>set rs. get ob (str ''rank'') = Some (Str v)"
    using assms(2) v by (auto simp: build_results_eq make_record_def Let_def)
  then show ?thesis ..
qed

lemma sortResults_same_rank:
  assumes "\<forall>ob\<in>set rs. get ob (str ''rank'') = Some (Str v)"
  shows "sortResults bi rs = Inr rs" and "sort_key rank_key rs = rs"
proof -
  have "\<forall>a\<in>set rs. \<forall>b\<in>set rs. \<not> positive (compare_rank bi a b)"
    using assms
    by (cases "stringToNumber bi v")
      (simp_all add: compare_rank_def rank_operand_def num_minus_self positive_None)
  then have "array_sort (compare_rank bi) rs = rs" by (rule array_sort_ties)
  then show "sortResults bi rs = Inr rs" using sortResults_cases [of bi rs] by auto
  have "\<forall>ob\<in>set rs. rank_key ob = (0, 999999)" using assms by (simp add: rank_key_def)
  then show "sort_key rank_key rs = rs" by (rule sort_key_ties)
qed

lemma sortResults_produced:
  assumes "build_results bi opts fh rows [] = Inr rs" and "rs \<noteq> []" and "rank_nonnull (hd rs)"
  shows "sortResults bi rs = Inr (sort_key rank_key rs)"
proof (cases "str ''rank'' \<in> fst ` set (meta opts)")
  case True
  from produced_rank_meta [OF True assms(1)] obtain v where
    "\<forall>ob\<in>set rs. get ob (str ''rank'') = Some (Str v)" ..
  from sortResults_same_rank [OF this] show ?thesis by simp
next
  case False
  from produced_rank_numeric [OF False assms(1)]
  have "array_sort (compare_rank bi) rs = sort_key rank_key rs" by (rule array_sort_sort_key)
  with assms(2,3) show ?thesis by (cases rs) (simp_all add: sortResults_def)
qed

text \<open>
  C1 (as amended). On every sequence of records that the loop produces: if the first
  record has a non-null rank, the result is the sequence stably sorted in ascending order
  of the rank, a null or absent rank counting as 999999, so that every record without a
  rank comes after every record ranked below 999999; if the first record's rank is null
  or absent (or the sequence is empty), the sequence is returned unchanged, whatever the
  ranks of the later records. When the metadata has the key \<open>rank\<close>, all the records
  have the same rank, a string, and the sequence is returned unchanged as well.
\<close>

theorem sortResults_by_rank:
  assumes "build_results bi opts fh rows [] = Inr rs"
  shows "\<exists>res. sortResults bi rs = Inr res \<and>
           (rs \<noteq> [] \<and> rank_nonnull (hd rs) \<longrightarrow>
              res = sort_key rank_key rs \<and> sorted (map rank_key res) \<and> mset res = mset rs \<and>
              (\<forall>i j. i < length res \<and> j < length res \<and> rank_key (res ! i) < (0, 999999) \<and>
                     \<not> rank_nonnull (res ! j) \<longrightarrow> i < j)) \<and>
           (rs = [] \<or> \<not> rank_nonnull (hd rs) \<longrightarrow> res = rs) \<and>
           (str ''rank'' \<in> fst ` set (meta opts) \<longrightarrow>
              res = rs \<and> (\<exists>v. \<forall>ob\<in>set rs. get ob (str ''rank'') = Some (Str v)))"
proof -
  obtain res where res: "sortResults bi rs = Inr res"
    using sortResults_cases [of bi rs] by blast
  have a: "rs \<noteq> [] \<and> rank_nonnull (hd rs) \<longrightarrow>
              res = sort_key rank_key rs \<and> sorted (map rank_key res) \<and> mset res = mset rs \<and>
              (\<forall>i j. i < length res \<and> j < length res \<and> rank_key (res ! i) < (0, 999999) \<and>
                     \<not> rank_nonnull (res ! j) \<longrightarrow> i < j)"
  proof
    assume h: "rs \<noteq> [] \<and> rank_nonnull (hd rs)"
    with sortResults_produced [OF assms] res have e: "res = sort_key rank_key rs" by simp
    have s: "sorted (map rank_key res)" unfolding e by simp
    have m: "mset res = mset rs" unfolding e by simp
    have "\<forall>i j. i < length res \<and> j < length res \<and> rank_key (res ! i) < (0, 999999) \<and>
        \<not> rank_nonnull (res ! j) \<longrightarrow> i < j"
      using sorted_nulls_last [OF s] by blast
    with e s m show "res = sort_key rank_key rs \<and> sorted (map rank_key res) \<and> mset res = mset rs \<and>
              (\<forall>i j. i < length res \<and> j < length res \<and> rank_key (res ! i) < (0, 999999) \<and>
                     \<not> rank_nonnull (res ! j) \<longrightarrow> i < j)"
      by blast
  qed
  have b: "rs = [] \<or> \<not> rank_nonnull (hd rs) \<longrightarrow> res = rs"
    using res by (cases rs) (auto simp: sortResults_def)
  have c: "str ''rank'' \<in> fst ` set (meta opts) \<longrightarrow>
              res = rs \<and> (\<exists>v. \<forall>ob\<in>set rs. get ob (str ''rank'') = Some (Str v))"
  proof
    assume "str ''rank'' \<in> fst ` set (meta opts)"
    from produced_rank_meta [OF this assms] obtain v where
      v: "\<forall>ob\<in>set rs. get ob (str ''rank'') = Some (Str v)" ..
    from sortResults_same_rank(1) [OF v] res have "res = rs" by simp
    with v show "res = rs \<and> (\<exists>v. \<forall>ob\<in>set rs. get ob (str ''rank'') = Some (Str v))" by blast
  qed
  from res a b c show ?thesis by blast
qed


text \<open>
  C1 as stated fails: in the comma-separated input with the header \<^verbatim>\<open>rank,player,city\<close>
  and the rows \<^verbatim>\<open>1000000,a,b\<close> and \<^verbatim>\<open>x,c,d\<close>, the first record has the rank
  1000000, the sequence is sorted, and the record without a rank, counted as 999999,
  comes before the ranked one.
\<close>

lemma cx_lines:
  "linesAll_of (str ''rank,player,city'' @ 10 # str ''1000000,a,b'' @ 10 # str ''x,c,d'') =
     [str ''rank,player,city'', str ''1000000,a,b'', str ''x,c,d'']"
  by (simp add: eval_defs)

lemma cx_format:
  "detectFormat (str ''rank,player,city'' @ 10 # str ''1000000,a,b'' @ 10 # str ''x,c,d'') = Csv"
  by (simp add: eval_defs)

lemma cx_header:
  "guessHeader [str ''rank,player,city'', str ''1000000,a,b'', str ''x,c,d''] =
     Some (str ''rank,player,city'')"
  by (simp add: eval_defs)

lemma cx_rows:
  "extract_rows Csv [str ''rank,player,city'', str ''1000000,a,b'', str ''x,c,d''] =
     Inr (Some [str ''rank'', str ''player'', str ''city''],
          [[str ''1000000'', str ''a'', str ''b''], [str ''x'', str ''c'', str ''d'']])"
  unfolding extract_rows_def cx_header
  by (simp add: str_def trim_def trim_end_def is_space_def cons_hd_def parseDelimited_def
      slice_from_def)

lemma cx_fields1:
  "row_fields bi (Some [str ''rank'', str ''player'', str ''city'']) [str ''1000000'', str ''a'', str ''b''] =
     [(str ''rank'', Num (Fin 1000000)), (str ''player'', Str (str ''a'')), (str ''city'', Str (str ''b''))]"
  by (simp add: eval_defs)

lemma cx_fields2:
  "row_fields bi (Some [str ''rank'', str ''player'', str ''city'']) [str ''x'', str ''c'', str ''d''] =
     [(str ''rank'', Null), (str ''player'', Str (str ''c'')), (str ''city'', Str (str ''d''))]"
  by (simp add: eval_defs)

lemma cx_id1:
  "auto_id bi 0 [(str ''rank'', Num (Fin 1000000)), (str ''player'', Str (str ''a'')), (str ''city'', Str (str ''b''))] =
     [(str ''rank'', Num (Fin 1000000)), (str ''player'', Str (str ''a'')), (str ''city'', Str (str ''b'')),
      (str ''id'', Str (str ''a-1000000''))]"
  by (simp add: eval_defs)

lemma cx_id2:
  "auto_id bi (Suc 0) [(str ''rank'', Null), (str ''player'', Str (str ''c'')), (str ''city'', Str (str ''d''))] =
     [(str ''rank'', Null), (str ''player'', Str (str ''c'')), (str ''city'', Str (str ''d'')),
      (str ''id'', Str (str ''c-2''))]"
  by (simp add: eval_defs)

lemma cx_build:
  "build_results bi \<lparr>columns = None, addId = True, meta = []\<rparr>
     (Some [str ''rank'', str ''player'', str ''city''])
     [[str ''1000000'', str ''a'', str ''b''], [str ''x'', str ''c'', str ''d'']] [] =
   Inr [[(str ''rank'', Num (Fin 1000000)), (str ''player'', Str (str ''a'')), (str ''city'', Str (str ''b'')),
         (str ''id'', Str (str ''a-1000000''))],
        [(str ''rank'', Null), (str ''player'', Str (str ''c'')), (str ''city'', Str (str ''d'')),
         (str ''id'', Str (str ''c-2''))]]"
proof -
  have "\<not> discarded [str ''1000000'', str ''a'', str ''b'']" "\<not> discarded [str ''x'', str ''c'', str ''d'']"
    by (simp_all add: discarded_def eval_defs)
  then show ?thesis
    by (simp add: build_results_eq make_record_def cx_fields1 cx_fields2 cx_id1 cx_id2
        attach_meta_def)
qed

lemma cx_sort:
  "sortResults plain_builtins
     [[(str ''rank'', Num (Fin 1000000)), (str ''player'', Str (str ''a'')), (str ''city'', Str (str ''b'')),
       (str ''id'', Str (str ''a-1000000''))],
      [(str ''rank'', Null), (str ''player'', Str (str ''c'')), (str ''city'', Str (str ''d'')),
       (str ''id'', Str (str ''c-2''))]] =
   Inr [[(str ''rank'', Null), (str ''player'', Str (str ''c'')), (str ''city'', Str (str ''d'')),
         (str ''id'', Str (str ''c-2''))],
        [(str ''rank'', Num (Fin 1000000)), (str ''player'', Str (str ''a'')), (str ''city'', Str (str ''b'')),
         (str ''id'', Str (str ''a-1000000''))]]"
  by (simp add: eval_defs)

theorem sentinel_counterexample:
  "parseInput plain_builtins
     (str ''rank,player,city'' @ 10 # str ''1000000,a,b'' @ 10 # str ''x,c,d'')
     \<lparr>columns = None, addId = True, meta = []\<rparr> =
   Inr [[(str ''rank'', Null), (str ''player'', Str (str ''c'')), (str ''city'', Str (str ''d'')),
         (str ''id'', Str (str ''c-2''))],
        [(str ''rank'', Num (Fin 1000000)), (str ''player'', Str (str ''a'')), (str ''city'', Str (str ''b'')),
         (str ''id'', Str (str ''a-1000000''))]]"
  by (simp add: parseInput_def cx_lines cx_format cx_rows final_header_def cx_build cx_sort
      del: build_results.simps)

text \<open>
  Under the header \<open>rank\<close>, \<open>player\<close>, the rows with the ranks 3, \<^verbatim>\<open>x\<close>, 1, 2 give
  records that come out in the order 1, 2, 3, null; the rows with the ranks \<^verbatim>\<open>x\<close>, 2,
  1 give records that are left as they are; and with the metadata \<open>rank = b\<close> the rows
  with the ranks 2, 1 give records that are left as they are.
\<close>

lemma w1_fields:
  "row_fields bi (Some [str ''rank'', str ''player'']) [str ''3'', str ''a''] =
     [(str ''rank'', Num (Fin 3)), (str ''player'', Str (str ''a''))]"
  "row_fields bi (Some [str ''rank'', str ''player'']) [str ''x'', str ''b''] =
     [(str ''rank'', Null), (str ''player'', Str (str ''b''))]"
  "row_fields bi (Some [str ''rank'', str ''player'']) [str ''1'', str ''c''] =
     [(str ''rank'', Num (Fin 1)), (str ''player'', Str (str ''c''))]"
  "row_fields bi (Some [str ''rank'', str ''player'']) [str ''2'', str ''d''] =
     [(str ''rank'', Num (Fin 2)), (str ''player'', Str (str ''d''))]"
  by (simp_all add: eval_defs)

lemma w1_kept:
  "\<not> discarded [str ''3'', str ''a'']" "\<not> discarded [str ''x'', str ''b'']"
  "\<not> discarded [str ''1'', str ''c'']" "\<not> discarded [str ''2'', str ''d'']"
  by (simp_all add: discarded_def eval_defs)

lemma w1_meta:
  "attach_meta [(str ''rank'', str ''b'')] [(str ''rank'', Num (Fin 2)), (str ''player'', Str (str ''d''))] =
     [(str ''rank'', Str (str ''b'')), (str ''player'', Str (str ''d''))]"
  "attach_meta [(str ''rank'', str ''b'')] [(str ''rank'', Num (Fin 1)), (str ''player'', Str (str ''c''))] =
     [(str ''rank'', Str (str ''b'')), (str ''player'', Str (str ''c''))]"
  by (simp_all add: eval_defs)

lemma w1_build:
  "build_results bi \<lparr>columns = None, addId = False, meta = []\<rparr> (Some [str ''rank'', str ''player''])
     [[str ''3'', str ''a''], [str ''x'', str ''b''], [str ''1'', str ''c''], [str ''2'', str ''d'']] [] =
   Inr [[(str ''rank'', Num (Fin 3)), (str ''player'', Str (str ''a''))],
        [(str ''rank'', Null), (str ''player'', Str (str ''b''))],
        [(str ''rank'', Num (Fin 1)), (str ''player'', Str (str ''c''))],
        [(str ''rank'', Num (Fin 2)), (str ''player'', Str (str ''d''))]]"
  "build_results bi \<lparr>columns = None, addId = False, meta = []\<rparr> (Some [str ''rank'', str ''player''])
     [[str ''x'', str ''b''], [str ''2'', str ''d''], [str ''1'', str ''c'']] [] =
   Inr [[(str ''rank'', Null), (str ''player'', Str (str ''b''))],
        [(str ''rank'', Num (Fin 2)), (str ''player'', Str (str ''d''))],
        [(str ''rank'', Num (Fin 1)), (str ''player'', Str (str ''c''))]]"
  "build_results bi \<lparr>columns = None, addId = False, meta = [(str ''rank'', str ''b'')]\<rparr>
     (Some [str ''rank'', str ''player''])
     [[str ''2'', str ''d''], [str ''1'', str ''c'']] [] =
   Inr [[(str ''rank'', Str (str ''b'')), (str ''player'', Str (str ''d''))],
        [(str ''rank'', Str (str ''b'')), (str ''player'', Str (str ''c''))]]"
  by (simp_all add: build_results_eq w1_kept make_record_def w1_fields w1_meta)
    (simp_all add: attach_meta_def)

theorem sortResults_by_rank_witness:
  "build_results plain_builtins \<lparr>columns = None, addId = False, meta = []\<rparr>
     (Some [str ''rank'', str ''player''])
     [[str ''3'', str ''a''], [str ''x'', str ''b''], [str ''1'', str ''c''], [str ''2'', str ''d'']] [] =
   Inr [[(str ''rank'', Num (Fin 3)), (str ''player'', Str (str ''a''))],
        [(str ''rank'', Null), (str ''player'', Str (str ''b''))],
        [(str ''rank'', Num (Fin 1)), (str ''player'', Str (str ''c''))],
        [(str ''rank'', Num (Fin 2)), (str ''player'', Str (str ''d''))]] \<and>
   rank_nonnull [(str ''rank'', Num (Fin 3)), (str ''player'', Str (str ''a''))] \<and>
   sortResults plain_builtins
     [[(str ''rank'', Num (Fin 3)), (str ''player'', Str (str ''a''))],
      [(str ''rank'', Null), (str ''player'', Str (str ''b''))],
      [(str ''rank'', Num (Fin 1)), (str ''player'', Str (str ''c''))],
      [(str ''rank'', Num (Fin 2)), (str ''player'', Str (str ''d''))]] =
   Inr [[(str ''rank'', Num (Fin 1)), (str ''player'', Str (str ''c''))],
        [(str ''rank'', Num (Fin 2)), (str ''player'', Str (str ''d''))],
        [(str ''rank'', Num (Fin 3)), (str ''player'', Str (str ''a''))],
        [(str ''rank'', Null), (str ''player'', Str (str ''b''))]] \<and>
   rank_key [(str ''rank'', Num (Fin 3)), (str ''player'', Str (str ''a''))] < (0, 999999) \<and>
   \<not> rank_nonnull [(str ''rank'', Null), (str ''player'', Str (str ''b''))] \<and>
   build_results plain_builtins \<lparr>columns = None, addId = False, meta = []\<rparr>
     (Some [str ''rank'', str ''player''])
     [[str ''x'', str ''b''], [str ''2'', str ''d''], [str ''1'', str ''c'']] [] =
   Inr [[(str ''rank'', Null), (str ''player'', Str (str ''b''))],
        [(str ''rank'', Num (Fin 2)), (str ''player'', Str (str ''d''))],
        [(str ''rank'', Num (Fin 1)), (str ''player'', Str (str ''c''))]] \<and>
   sortResults plain_builtins
     [[(str ''rank'', Null), (str ''player'', Str (str ''b''))],
      [(str ''rank'', Num (Fin 2)), (str ''player'', Str (str ''d''))],
      [(str ''rank'', Num (Fin 1)), (str ''player'', Str (str ''c''))]] =
   Inr [[(str ''rank'', Null), (str ''player'', Str (str ''b''))],
        [(str ''rank'', Num (Fin 2)), (str ''player'', Str (str ''d''))],
        [(str ''rank'', Num (Fin 1)), (str ''player'', Str (str ''c''))]] \<and>
   str ''rank'' \<in> fst ` set (meta \<lparr>columns = None, addId = False, meta = [(str ''rank'', str ''b'')]\<rparr>) \<and>
   build_results plain_builtins \<lparr>columns = None, addId = False, meta = [(str ''rank'', str ''b'')]\<rparr>
     (Some [str ''rank'', str ''player''])
     [[str ''2'', str ''d''], [str ''1'', str ''c'']] [] =
   Inr [[(str ''rank'', Str (str ''b'')), (str ''player'', Str (str ''d''))],
        [(str ''rank'', Str (str ''b'')), (str ''player'', Str (str ''c''))]] \<and>
   sortResults plain_builtins
     [[(str ''rank'', Str (str ''b'')), (str ''player'', Str (str ''d''))],
      [(str ''rank'', Str (str ''b'')), (str ''player'', Str (str ''c''))]] =
   Inr [[(str ''rank'', Str (str ''b'')), (str ''player'', Str (str ''d''))],
        [(str ''rank'', Str (str ''b'')), (str ''player'', Str (str ''c''))]]"
proof -
  let ?a = "[(str ''rank'', Num (Fin 3)), (str ''player'', Str (str ''a''))]"
  let ?b = "[(str ''rank'', Null), (str ''player'', Str (str ''b''))]"
  let ?c = "[(str ''rank'', Num (Fin 1)), (str ''player'', Str (str ''c''))]"
  let ?d = "[(str ''rank'', Num (Fin 2)), (str ''player'', Str (str ''d''))]"
  let ?e = "[(str ''rank'', Str (str ''b'')), (str ''player'', Str (str ''d''))]"
  let ?f = "[(str ''rank'', Str (str ''b'')), (str ''player'', Str (str ''c''))]"
  let ?o = "\<lparr>columns = None, addId = False, meta = []\<rparr>"
  let ?m = "\<lparr>columns = None, addId = False, meta = [(str ''rank'', str ''b'')]\<rparr>"
  let ?h = "Some [str ''rank'', str ''player'']"
  have b1: "build_results plain_builtins ?o ?h
     [[str ''3'', str ''a''], [str ''x'', str ''b''], [str ''1'', str ''c''], [str ''2'', str ''d'']] [] =
     Inr [?a, ?b, ?c, ?d]"
    by (rule w1_build)
  have b2: "build_results plain_builtins ?o ?h
     [[str ''x'', str ''b''], [str ''2'', str ''d''], [str ''1'', str ''c'']] [] = Inr [?b, ?d, ?c]"
    by (rule w1_build)
  have b3: "build_results plain_builtins ?m ?h [[str ''2'', str ''d''], [str ''1'', str ''c'']] [] =
     Inr [?e, ?f]"
    by (rule w1_build)
  have k: "rank_key ?a = (0, 3)" "rank_key ?c = (0, 1)" "rank_key ?d = (0, 2)"
    "rank_key ?b = (0, 999999)"
    by (simp_all add: rank_key_def number_key_def get_def)
  have n: "rank_nonnull ?a" "\<not> rank_nonnull ?b"
    by (simp_all add: rank_nonnull_def get_def)
  have s: "sort_key rank_key [?a, ?b, ?c, ?d] = [?c, ?d, ?a, ?b]"
    by (simp add: k)
  have l: "rank_key ?a < (0, 999999)" by (simp add: k)
  have mk: "str ''rank'' \<in> fst ` set (meta ?m)" by simp
  from sortResults_by_rank [OF b1] n(1) s
  have r1: "sortResults plain_builtins [?a, ?b, ?c, ?d] = Inr [?c, ?d, ?a, ?b]" by auto
  from sortResults_by_rank [OF b2] n(2)
  have r2: "sortResults plain_builtins [?b, ?d, ?c] = Inr [?b, ?d, ?c]" by auto
  from sortResults_by_rank [OF b3] mk
  have r3: "sortResults plain_builtins [?e, ?f] = Inr [?e, ?f]" by auto
  from b1 b2 b3 n l mk r1 r2 r3 show ?thesis by blast
qed

subsection \<open>Markdown tables\<close>

lemma cons_hd_map: "map (map f) (cons_hd c ps) = cons_hd (f c) (map (map f) ps)"
  by (cases ps) (auto simp: cons_hd_def)

lemma split_lines_map:
  assumes "\<And>c. f c = 10 \<longleftrightarrow> c = 10" and "\<And>c. f c = 13 \<longleftrightarrow> c = 13"
  shows "split_lines (map f t) = map (map f) (split_lines t)"
proof (induction t rule: split_lines.induct)
  case 1
  then show ?case by simp
next
  case (2 c)
  then show ?case by (simp add: assms)
next
  case (3 c d cs)
  then show ?case by (simp add: assms cons_hd_map)
qed

lemma all_dropWhile: "(\<forall>c\<in>set (dropWhile P l). P c) \<longleftrightarrow> (\<forall>c\<in>set l. P c)"
  by (induction l) auto

lemma trim_empty_iff: "trim l = [] \<longleftrightarrow> (\<forall>c\<in>set l. is_space c)"
  by (simp add: trim_def trim_end_def all_dropWhile)

lemma nonblank_iff: "nonblank l \<longleftrightarrow> (\<exists>c\<in>set l. \<not> is_space c)"
  using trim_empty_iff [of l] by (auto simp: nonblank_def)

lemma space_nbsp: "is_space (if c = 160 then 32 else c) = is_space c"
  by (simp add: is_space_def)

lemma trim_end_nonspace: "(\<exists>c\<in>set (trim_end l). \<not> is_space c) \<longleftrightarrow> (\<exists>c\<in>set l. \<not> is_space c)"
proof -
  obtain w where w: "\<forall>c\<in>set w. is_space c" and e: "l = trim_end l @ w"
    using trim_end_decomp by blast
  have "set l = set (trim_end l) \<union> set w" by (subst e) simp
  with w show ?thesis by auto
qed

lemma map_nbsp_nonspace:
  "(\<exists>c\<in>set (map (\<lambda>c. if c = 160 then 32 else c) l). \<not> is_space c) \<longleftrightarrow> (\<exists>c\<in>set l. \<not> is_space c)"
  by (induction l) (simp_all add: space_nbsp)

lemma nonblank_clean: "nonblank (clean_line l) = nonblank l"
  unfolding nonblank_iff clean_line_def trim_end_nonspace by (rule map_nbsp_nonspace)

lemma linesAll_of_clean:
  "linesAll_of text = map clean_line (filter nonblank (split_lines text))"
proof -
  have "split_lines (map (\<lambda>c. if c = 160 then 32 else c) text) =
        map (map (\<lambda>c. if c = 160 then 32 else c)) (split_lines text)"
    by (rule split_lines_map) auto
  then have "linesAll_of text = filter nonblank (map clean_line (split_lines text))"
    by (simp add: linesAll_of_def clean_line_def [abs_def] comp_def)
  then show ?thesis by (simp add: filter_map comp_def nonblank_clean)
qed

lemma starts_bar_decomp:
  assumes "startsWith (trim l) [124]"
  shows "\<exists>ws rest. l = ws @ 124 # rest \<and> (\<forall>c\<in>set ws. is_space c)"
proof -
  obtain w where e: "dropWhile is_space l = trim l @ w"
    using trim_end_decomp [of "dropWhile is_space l"] by (auto simp: trim_def)
  from assms obtain t where "trim l = 124 # t"
    by (cases "trim l") (auto simp: startsWith_def)
  with e have "dropWhile is_space l = 124 # (t @ w)" by simp
  then have "l = takeWhile is_space l @ 124 # (t @ w)"
    by (metis takeWhile_dropWhile_id)
  moreover have "\<forall>c\<in>set (takeWhile is_space l). is_space c" by (auto dest: set_takeWhileD)
  ultimately show ?thesis by blast
qed

lemma bar_not_space: "\<not> is_space 124"
  by (simp add: is_space_def)

lemma trim_end_Cons_nonspace: "\<not> is_space c \<Longrightarrow> trim_end (a @ c # b) = a @ c # trim_end b"
proof (cases "\<forall>x\<in>set (rev b). is_space x")
  case True
  assume c: "\<not> is_space c"
  from True have "dropWhile is_space (rev b @ c # rev a) = dropWhile is_space (c # rev a)"
    by (intro dropWhile_append2) auto
  moreover from True have "dropWhile is_space (rev b) = []" by (rule dropWhile_all)
  ultimately show ?thesis using c unfolding trim_end_def by simp
next
  case False
  assume c: "\<not> is_space c"
  from False show ?thesis by (auto simp: trim_end_def dropWhile_append1)
qed

lemma map_nbsp_spaces:
  "\<forall>c\<in>set ws. is_space c \<Longrightarrow> \<forall>c\<in>set (map (\<lambda>c. if c = 160 then 32 else c) ws). is_space c"
  by (induction ws) (simp_all add: space_nbsp)

lemma starts_bar_clean:
  assumes "startsWith (trim l) [124]"
  shows "startsWith (trim (clean_line l)) [124]"
proof -
  obtain ws rest where l: "l = ws @ 124 # rest" and ws: "\<forall>c\<in>set ws. is_space c"
    using starts_bar_decomp [OF assms] by blast
  define ws' where "ws' = map (\<lambda>c::nat. if c = 160 then 32 else c) ws"
  define rest' where "rest' = map (\<lambda>c::nat. if c = 160 then 32 else c) rest"
  have sp: "\<forall>c\<in>set ws'. is_space c"
    unfolding ws'_def using ws by (rule map_nbsp_spaces)
  have "map (\<lambda>c::nat. if c = 160 then 32 else c) l = ws' @ 124 # rest'"
    by (simp add: l ws'_def rest'_def)
  then have c: "clean_line l = ws' @ 124 # trim_end rest'"
    by (simp add: clean_line_def trim_end_Cons_nonspace [OF bar_not_space])
  have "dropWhile is_space (ws' @ 124 # trim_end rest') = dropWhile is_space (124 # trim_end rest')"
    using sp by (intro dropWhile_append2) auto
  then have "dropWhile is_space (clean_line l) = 124 # trim_end rest'"
    using bar_not_space by (simp add: c)
  then have "trim (clean_line l) = 124 # trim_end (trim_end rest')"
    using trim_end_Cons_nonspace [OF bar_not_space, of "[]" "trim_end rest'"]
    by (simp add: trim_def)
  then show ?thesis by (simp add: startsWith_def)
qed

lemma starts_bar_has_bar: "startsWith (trim l) [124] \<Longrightarrow> 124 \<in> set l"
  using starts_bar_decomp [of l] by auto

lemma detectFormat_md:
  assumes "filter nonblank (split_lines text) = h # ls" and "startsWith (trim h) [124]"
  shows "detectFormat text = Md"
  using assms starts_bar_has_bar [OF assms(2)] by (simp add: detectFormat_def)

lemma parseMarkdownTable_table:
  assumes "list_all (\<lambda>l. startsWith (trim l) [124]) (h # sep # rows)"
  shows "parseMarkdownTable (map clean_line (h # sep # rows)) =
           Inr (Some (table_cells (clean_line h)), map (\<lambda>l. table_cells (clean_line l)) rows)"
proof -
  have "\<forall>l\<in>set (map clean_line (h # sep # rows)). startsWith (trim l) [124]"
    using assms by (auto simp: list_all_iff starts_bar_clean)
  then have "filter (\<lambda>l. startsWith (trim l) [124]) (map clean_line (h # sep # rows)) =
             map clean_line (h # sep # rows)"
    by (simp only: filter_True)
  then show ?thesis unfolding parseMarkdownTable_def Let_def by simp
qed

text \<open>
  C2 (as amended). When the non-blank lines of the input are a header line, a separator
  line and \<open>N\<close> data rows, each beginning with a bar once trimmed, the conversion returns
  the records of the data rows that the junk filter keeps, in the order of the final
  sort: the second line is skipped whatever it contains and is never a record, there are
  at most \<open>N\<close> records, and exactly \<open>N\<close> when no data row is discarded (a row is discarded
  when its cells contain \<^verbatim>\<open>---\<close> or when it has a single cell shorter than two
  characters).
\<close>

theorem markdown_table_records:
  assumes "filter nonblank (split_lines text) = h # sep # rows"
    and "list_all (\<lambda>l. startsWith (trim l) [124]) (h # sep # rows)"
  shows "\<exists>rs. parseInput bi text opts = Inr rs \<and>
           sortResults bi
             (map (\<lambda>(i, r). make_record bi opts
                     (final_header (columns opts) (Some (table_cells (clean_line h)))) i r)
                (enumerate 0
                   (filter (\<lambda>r. \<not> discarded r) (map (\<lambda>l. table_cells (clean_line l)) rows)))) =
             Inr rs \<and>
           length rs = length (filter (\<lambda>l. \<not> discarded (table_cells (clean_line l))) rows) \<and>
           length rs \<le> length rows \<and>
           (list_all (\<lambda>l. \<not> discarded (table_cells (clean_line l))) rows \<longrightarrow>
              length rs = length rows)"
proof -
  let ?fh = "final_header (columns opts) (Some (table_cells (clean_line h)))"
  let ?kept = "filter (\<lambda>r. \<not> discarded r) (map (\<lambda>l. table_cells (clean_line l)) rows)"
  let ?built = "map (\<lambda>(i, r). make_record bi opts ?fh i r) (enumerate 0 ?kept)"
  have f: "detectFormat text = Md"
    using assms by (intro detectFormat_md [of "text" h "sep # rows"]) auto
  have l: "linesAll_of text = map clean_line (h # sep # rows)"
    by (simp only: linesAll_of_clean assms(1))
  have e: "extract_rows Md (linesAll_of text) =
       Inr (Some (table_cells (clean_line h)), map (\<lambda>l. table_cells (clean_line l)) rows)"
    unfolding l extract_rows_def using parseMarkdownTable_table [OF assms(2)] by simp
  have b: "build_results bi opts ?fh (map (\<lambda>l. table_cells (clean_line l)) rows) [] = Inr ?built"
    by (simp add: build_results_eq)
  obtain rs where s: "sortResults bi ?built = Inr rs" and n: "length rs = length ?built"
    using sortResults_ok by blast
  have p: "parseInput bi text opts = Inr rs"
    unfolding parseInput_def Let_def f e using b s by simp
  have k: "length ?kept = length (filter (\<lambda>l. \<not> discarded (table_cells (clean_line l))) rows)"
    by (simp add: filter_map comp_def)
  have n': "length rs = length (filter (\<lambda>l. \<not> discarded (table_cells (clean_line l))) rows)"
    using n k by simp
  have le: "length rs \<le> length rows"
    unfolding n' by (rule length_filter_le)
  have all: "list_all (\<lambda>l. \<not> discarded (table_cells (clean_line l))) rows \<longrightarrow> length rs = length rows"
    unfolding n' by (simp add: list_all_iff)
  from p s n' le all show ?thesis by blast
qed

text \<open>
  C2 as stated fails: the table with the header \<^verbatim>\<open>| Rank |\<close>, a separator and the one
  data row \<^verbatim>\<open>| 1 |\<close> gives no record, because the row has a single cell of one
  character and the junk filter discards it.
\<close>

lemma md1_lines:
  "filter nonblank (split_lines (str ''| Rank |'' @ 10 # str ''| --- |'' @ 10 # str ''| 1 |'')) =
     [str ''| Rank |'', str ''| --- |'', str ''| 1 |'']"
  by (simp add: eval_defs)

lemma md1_bars:
  "list_all (\<lambda>l. startsWith (trim l) [124]) [str ''| Rank |'', str ''| --- |'', str ''| 1 |'']"
  by (simp add: eval_defs)

lemma md1_linesAll:
  "linesAll_of (str ''| Rank |'' @ 10 # str ''| --- |'' @ 10 # str ''| 1 |'') =
     [str ''| Rank |'', str ''| --- |'', str ''| 1 |'']"
  by (simp add: eval_defs)

lemma md1_format:
  "detectFormat (str ''| Rank |'' @ 10 # str ''| --- |'' @ 10 # str ''| 1 |'') = Md"
  by (simp add: eval_defs)

lemma md1_rows:
  "extract_rows Md [str ''| Rank |'', str ''| --- |'', str ''| 1 |''] =
     Inr (Some [str ''Rank''], [[str ''1'']])"
  by (simp add: eval_defs)

lemma md1_build:
  "build_results bi \<lparr>columns = None, addId = True, meta = []\<rparr> (Some [str ''Rank'']) [[str ''1'']] [] =
     Inr []"
  by (simp add: is_separator_row_def is_short_row_def str_def toLowerCase_def lower_char_def
      startsWith_def)

theorem markdown_short_row_counterexample:
  "filter nonblank (split_lines (str ''| Rank |'' @ 10 # str ''| --- |'' @ 10 # str ''| 1 |'')) =
     [str ''| Rank |'', str ''| --- |'', str ''| 1 |''] \<and>
   list_all (\<lambda>l. startsWith (trim l) [124]) [str ''| Rank |'', str ''| --- |'', str ''| 1 |''] \<and>
   parseInput plain_builtins (str ''| Rank |'' @ 10 # str ''| --- |'' @ 10 # str ''| 1 |'')
     \<lparr>columns = None, addId = True, meta = []\<rparr> = Inr []"
proof -
  have "parseInput plain_builtins (str ''| Rank |'' @ 10 # str ''| --- |'' @ 10 # str ''| 1 |'')
     \<lparr>columns = None, addId = True, meta = []\<rparr> = Inr []"
    by (simp add: parseInput_def md1_linesAll md1_format md1_rows final_header_def md1_build
        sortResults_def del: build_results.simps)
  with md1_lines md1_bars show ?thesis by simp
qed

text \<open>A table with two data rows that are kept gives two records.\<close>

lemma md2_lines:
  "filter nonblank (split_lines (str ''| Rank | Player |'' @ 10 # str ''| --- | --- |'' @ 10 #
      str ''| 1 | Bob |'' @ 10 # str ''| 2 | Al |'' @ [10])) =
     [str ''| Rank | Player |'', str ''| --- | --- |'', str ''| 1 | Bob |'', str ''| 2 | Al |'']"
  by (simp add: eval_defs)

lemma md2_bars:
  "list_all (\<lambda>l. startsWith (trim l) [124])
     [str ''| Rank | Player |'', str ''| --- | --- |'', str ''| 1 | Bob |'', str ''| 2 | Al |'']"
  by (simp add: eval_defs)

lemma md2_kept:
  "\<not> discarded (table_cells (clean_line (str ''| 1 | Bob |'')))"
  "\<not> discarded (table_cells (clean_line (str ''| 2 | Al |'')))"
  by (simp_all add: discarded_def clean_line_def eval_defs)

theorem markdown_table_records_witness:
  "filter nonblank (split_lines (str ''| Rank | Player |'' @ 10 # str ''| --- | --- |'' @ 10 #
      str ''| 1 | Bob |'' @ 10 # str ''| 2 | Al |'' @ [10])) =
     [str ''| Rank | Player |'', str ''| --- | --- |'', str ''| 1 | Bob |'', str ''| 2 | Al |''] \<and>
   list_all (\<lambda>l. startsWith (trim l) [124])
     [str ''| Rank | Player |'', str ''| --- | --- |'', str ''| 1 | Bob |'', str ''| 2 | Al |''] \<and>
   list_all (\<lambda>l. \<not> discarded (table_cells (clean_line l))) [str ''| 1 | Bob |'', str ''| 2 | Al |''] \<and>
   (\<exists>rs. parseInput plain_builtins
           (str ''| Rank | Player |'' @ 10 # str ''| --- | --- |'' @ 10 #
            str ''| 1 | Bob |'' @ 10 # str ''| 2 | Al |'' @ [10])
           \<lparr>columns = None, addId = True, meta = []\<rparr> = Inr rs \<and> length rs = 2)"
proof -
  have k: "list_all (\<lambda>l. \<not> discarded (table_cells (clean_line l))) [str ''| 1 | Bob |'', str ''| 2 | Al |'']"
    using md2_kept by simp
  from markdown_table_records [OF md2_lines md2_bars, of plain_builtins
      "\<lparr>columns = None, addId = True, meta = []\<rparr>"] k
  have "\<exists>rs. parseInput plain_builtins
           (str ''| Rank | Player |'' @ 10 # str ''| --- | --- |'' @ 10 #
            str ''| 1 | Bob |'' @ 10 # str ''| 2 | Al |'' @ [10])
           \<lparr>columns = None, addId = True, meta = []\<rparr> = Inr rs \<and> length rs = 2"
    by auto
  with md2_lines md2_bars k show ?thesis by simp
qed

end
